theory Spec2Isabelle
  imports Complex_Main "HOL-Library.Word"
begin

section \<open>Loop closing of ORB-SLAM2 (src/src/LoopClosing.cc)\<close>

text \<open>
  Pointers to keyframes and map points are addresses (natural numbers); a nullable
  \<^verbatim>\<open>MapPoint*\<close> is an \<open>option\<close>. A \<^verbatim>\<open>std::set<KeyFrame*>\<close> is a set of addresses.
  Keyframe identifiers (\<^verbatim>\<open>frameid_t\<close>, declared in a header that is not among the
  sources) are integers.
\<close>

type_synonym kfptr = nat
type_synonym mpptr = nat
type_synonym frameid_t = int

text \<open>
  The type \<^verbatim>\<open>int\<close> is 32 bits wide. Where the code turns a keyframe identifier into an
  \<^verbatim>\<open>int\<close> (the cast \<^verbatim>\<open>(int)currentKF->id\<close> of line 164, and the member \<^verbatim>\<open>lastLoopKFId_\<close>
  handed to the parameter \<^verbatim>\<open>int lastLoopKFId\<close> at line 741) the low 32 bits are kept;
  the sum of two \<^verbatim>\<open>int\<close>s wraps, and \<^verbatim>\<open><\<close> compares the signed values (\<open>sint\<close>).
\<close>

definition to_int :: "frameid_t \<Rightarrow> 32 word" where
  "to_int x = word_of_int x"

text \<open>The integers an \<^verbatim>\<open>int\<close> can hold.\<close>

definition fits_int :: "int \<Rightarrow> bool" where
  "fits_int x = (- (2 ^ 31) \<le> x \<and> x < 2 ^ 31)"

subsection \<open>LoopDetector: covisibility consistency (Detect, lines 194-241)\<close>

text \<open>
  \<^verbatim>\<open>using ConsistentGroup = std::pair<std::set<KeyFrame*>, int>\<close>: the count is an
  \<^verbatim>\<open>int\<close>, so \<^verbatim>\<open>+ 1\<close> wraps and \<^verbatim>\<open>>=\<close> compares the signed values.
\<close>

type_synonym ConsistentGroup = "kfptr set \<times> 32 word"

text \<open>The constructor initialises \<^verbatim>\<open>minConsistency_(3)\<close>.\<close>

definition minConsistency :: "32 word" where
  "minConsistency = 3"

text \<open>The lambda \<^verbatim>\<open>IsConsistent\<close>: some keyframe of the current group is in the previous one.\<close>

definition IsConsistent :: "kfptr set \<Rightarrow> kfptr set \<Rightarrow> bool" where
  "IsConsistent prevGroup currGroup = (\<exists>groupKF\<in>currGroup. groupKF \<in> prevGroup)"

text \<open>The three vectors the loop over the candidates writes.\<close>

record consistency_acc =
  currConsistentGroups :: "ConsistentGroup list"
  consistentFound :: "bool list"
  candidateKFs :: "kfptr list"

text \<open>
  Body of \<^verbatim>\<open>for (size_t iG : consistentGroupsIds)\<close>; the boolean threaded with the
  accumulator is \<^verbatim>\<open>candidateFound\<close>. Every \<open>iG\<close> visited is below the length of the cache.
\<close>

definition visit_group ::
  "ConsistentGroup list \<Rightarrow> kfptr \<Rightarrow> kfptr set \<Rightarrow> nat \<Rightarrow> bool \<times> consistency_acc \<Rightarrow> bool \<times> consistency_acc"
where
  "visit_group prevConsistentGroups candidateKF currGroup iG = (\<lambda>(candidateFound, acc).
     let currConsistency = snd (prevConsistentGroups ! iG) + 1;
         acc1 = (if \<not> consistentFound acc ! iG
                 then acc\<lparr>currConsistentGroups := currConsistentGroups acc @ [(currGroup, currConsistency)],
                          consistentFound := (consistentFound acc)[iG := True]\<rparr>
                 else acc)
     in if sint currConsistency \<ge> sint minConsistency \<and> \<not> candidateFound
        then (True, acc1\<lparr>candidateKFs := candidateKFs acc1 @ [candidateKF]\<rparr>)
        else (candidateFound, acc1))"

text \<open>
  Body of \<^verbatim>\<open>for (KeyFrame* candidateKF : tmpCandidateKFs)\<close>. The argument \<open>conn\<close> is
  \<^verbatim>\<open>KeyFrame::GetConnectedKeyFrames\<close>.
\<close>

definition consistentGroupsIds :: "ConsistentGroup list \<Rightarrow> kfptr set \<Rightarrow> nat list" where
  "consistentGroupsIds prevConsistentGroups currGroup =
     filter (\<lambda>iG. IsConsistent (fst (prevConsistentGroups ! iG)) currGroup)
       [0..<length prevConsistentGroups]"

definition check_candidate ::
  "(kfptr \<Rightarrow> kfptr set) \<Rightarrow> ConsistentGroup list \<Rightarrow> kfptr \<Rightarrow> consistency_acc \<Rightarrow> consistency_acc"
where
  "check_candidate conn prevConsistentGroups candidateKF acc =
     (let currGroup = insert candidateKF (conn candidateKF);
          ids = consistentGroupsIds prevConsistentGroups currGroup;
          acc1 = snd (fold (visit_group prevConsistentGroups candidateKF currGroup) ids (False, acc))
      in if ids = []
         then acc1\<lparr>currConsistentGroups := currConsistentGroups acc1 @ [(currGroup, 0)]\<rparr>
         else acc1)"

definition CheckConsistency ::
  "(kfptr \<Rightarrow> kfptr set) \<Rightarrow> ConsistentGroup list \<Rightarrow> kfptr list \<Rightarrow> consistency_acc"
where
  "CheckConsistency conn prevConsistentGroups tmpCandidateKFs =
     fold (check_candidate conn prevConsistentGroups) tmpCandidateKFs
       \<lparr>currConsistentGroups = [],
        consistentFound = replicate (length prevConsistentGroups) False,
        candidateKFs = []\<rparr>"

subsection \<open>Data model\<close>

text \<open>
  The geometry types (\<^verbatim>\<open>CameraPose\<close>, \<^verbatim>\<open>Sim3\<close>, rotation matrices, \<^verbatim>\<open>Point3D\<close>, the
  scalar type) are declared in headers that are not among the sources and compute in
  floating point. They are type parameters here, and the operations the code applies to
  them are the fields of one record: \<open>pose_mul\<close> is \<^verbatim>\<open>CameraPose * CameraPose\<close>,
  \<open>sim_mul\<close> is \<^verbatim>\<open>Sim3 * Sim3\<close>, \<open>rot_mul_pt\<close> is \<^verbatim>\<open>R * X\<close>, \<open>pt_add\<close> is
  \<^verbatim>\<open>X + t\<close>, \<open>sc_recip\<close> is \<^verbatim>\<open>1. / s\<close>, \<open>sc_mul_pt\<close> is \<^verbatim>\<open>s * t\<close>,
  \<open>Sim3_of_pose\<close> is the constructor \<^verbatim>\<open>Sim3(CameraPose)\<close>, \<open>Sim3_default\<close> is \<^verbatim>\<open>Sim3()\<close>
  and \<open>CameraPose_of\<close> is the constructor \<^verbatim>\<open>CameraPose(R, t)\<close>.
\<close>

record ('pose, 'sim, 'rot, 'pt, 'sc) geom =
  pose_R :: "'pose \<Rightarrow> 'rot"
  pose_t :: "'pose \<Rightarrow> 'pt"
  pose_Inverse :: "'pose \<Rightarrow> 'pose"
  pose_mul :: "'pose \<Rightarrow> 'pose \<Rightarrow> 'pose"
  CameraPose_of :: "'rot \<Rightarrow> 'pt \<Rightarrow> 'pose"
  rot_mul_pt :: "'rot \<Rightarrow> 'pt \<Rightarrow> 'pt"
  pt_add :: "'pt \<Rightarrow> 'pt \<Rightarrow> 'pt"
  sc_mul_pt :: "'sc \<Rightarrow> 'pt \<Rightarrow> 'pt"
  sc_recip :: "'sc \<Rightarrow> 'sc"
  Sim3_of_pose :: "'pose \<Rightarrow> 'sim"
  Sim3_default :: "'sim"
  sim_mul :: "'sim \<Rightarrow> 'sim \<Rightarrow> 'sim"
  sim_Inverse :: "'sim \<Rightarrow> 'sim"
  sim_Map :: "'sim \<Rightarrow> 'pt \<Rightarrow> 'pt"
  sim_R :: "'sim \<Rightarrow> 'rot"
  sim_t :: "'sim \<Rightarrow> 'pt"
  sim_Scale :: "'sim \<Rightarrow> 'sc"

text \<open>
  Modelled from the spec: the classes \<^verbatim>\<open>KeyFrame\<close> and \<^verbatim>\<open>MapPoint\<close> (KeyFrame.h and
  MapPoint.h are not among the sources). A keyframe has an identifier, a pose, the
  \<open>isBad\<close> flag, its covisible neighbours (as the ordered vector
  \<^verbatim>\<open>GetVectorCovisibleKeyFrames\<close> and as the set \<^verbatim>\<open>GetConnectedKeyFrames\<close>), its
  spanning-tree children, its map-point observations by feature slot
  (\<^verbatim>\<open>GetMapPointMatches\<close>, nullable entries) and the scratch fields \<open>TcwGBA\<close>,
  \<open>TcwBefGBA\<close>, \<open>BAGlobalForKF\<close>. A map point has a world position, the \<open>isBad\<close> flag,
  a reference keyframe and the scratch fields \<open>posGBA\<close>, \<open>BAGlobalForKF\<close>,
  \<open>loopPointForKF\<close>, \<open>correctedByKF\<close>, \<open>correctedReference\<close>.
\<close>

record 'pose KeyFrame =
  kf_id :: frameid_t
  kf_isBad :: bool
  pose :: 'pose
  TcwGBA :: 'pose
  TcwBefGBA :: 'pose
  kf_BAGlobalForKF :: frameid_t
  covisible :: "kfptr list"
  connected :: "kfptr set"
  children :: "kfptr list"
  mapPointMatches :: "mpptr option list"

record 'pt MapPoint =
  mp_isBad :: bool
  worldPos :: 'pt
  posGBA :: 'pt
  mp_BAGlobalForKF :: frameid_t
  loopPointForKF :: frameid_t
  correctedByKF :: frameid_t
  correctedReference :: frameid_t
  referenceKF :: kfptr

text \<open>
  Calls on the collaborators (keyframes, map points, the keyframe database, the local
  mapper, the matcher and the optimizer) whose effect is kept by the collaborator are
  recorded, in the order the code makes them.
\<close>

datatype event =
    KF_SetNotErase kfptr
  | KF_SetErase kfptr
  | KF_UpdateConnections kfptr
  | KF_AddMapPoint kfptr mpptr nat
  | KF_AddLoopEdge kfptr kfptr
  | MP_UpdateNormalAndDepth mpptr
  | MP_Replace mpptr mpptr
  | MP_AddObservation mpptr kfptr nat
  | MP_ComputeDistinctiveDescriptors mpptr
  | DB_DetectLoopCandidates kfptr
  | DB_add kfptr
  | LM_RequestStop
  | LM_Release
  | Matcher_Fuse kfptr
  | Optimizer_OptimizeEssentialGraph kfptr kfptr

text \<open>
  The members of \<^verbatim>\<open>GlobalBA\<close>. \<open>fullBAIdx\<close> is an \<^verbatim>\<open>int\<close>, which \<^verbatim>\<open>++\<close> wraps. \<open>thread\<close>
  is the \<^verbatim>\<open>ReusableThread\<close>: the joinable thread it holds, named by the argument of the
  \<^verbatim>\<open>_Run\<close> it executes, or \<open>None\<close>.
\<close>

record GlobalBA =
  running :: bool
  finished :: bool
  stop :: bool
  fullBAIdx :: "32 word"
  thread :: "frameid_t option"

text \<open>
  The map and the objects it owns: keyframes and map points by address, the keyframe
  origins, the vector \<^verbatim>\<open>GetAllMapPoints\<close> returns, the big-change index.
\<close>

record ('pose, 'pt) world =
  kfs :: "kfptr \<Rightarrow> 'pose KeyFrame"
  mps :: "mpptr \<Rightarrow> 'pt MapPoint"
  keyFrameOrigins :: "kfptr list"
  allMapPoints :: "mpptr list"
  bigChangeIdx :: int

text \<open>The shared state: the map, the global bundle adjustment task and the recorded calls.\<close>

record ('pose, 'pt) sys =
  world :: "('pose, 'pt) world"
  GBA :: GlobalBA
  calls :: "event list"

subsection \<open>GlobalBA (lines 349-499)\<close>

text \<open>The constructor: \<^verbatim>\<open>running_(false), finished_(true), stop_(false), fullBAIdx_(0)\<close>.\<close>

definition GlobalBA_init :: GlobalBA where
  "GlobalBA_init = \<lparr>running = False, finished = True, stop = False, fullBAIdx = 0, thread = None\<rparr>"

text \<open>
  \<^verbatim>\<open>_Run\<close>, the spanning-tree pass (lines 393-413). \<open>correct_child\<close> is the body of the loop
  over the children of \<open>keyframe\<close>; \<open>correct_keyframes\<close> is the \<^verbatim>\<open>while (!toCheck.empty())\<close>
  loop, which pops the front and appends the children. Nothing bounds the loop when the
  children relation has a cycle, so it runs on fuel: \<open>None\<close> is a loop still running
  when the fuel is used up.
\<close>

definition correct_child ::
  "('pose, 'sim, 'rot, 'pt, 'sc) geom \<Rightarrow> frameid_t \<Rightarrow> kfptr \<Rightarrow> 'pose \<Rightarrow> kfptr \<Rightarrow>
   (kfptr \<Rightarrow> 'pose KeyFrame) \<Rightarrow> (kfptr \<Rightarrow> 'pose KeyFrame)"
where
  "correct_child G loopKFId keyframe Twc child ks =
     (if kf_BAGlobalForKF (ks child) \<noteq> loopKFId
      then let Tchildc = pose_mul G (pose (ks child)) Twc
           in ks(child := (ks child)\<lparr>TcwGBA := pose_mul G Tchildc (TcwGBA (ks keyframe)),
                                     kf_BAGlobalForKF := loopKFId\<rparr>)
      else ks)"

fun correct_keyframes ::
  "('pose, 'sim, 'rot, 'pt, 'sc) geom \<Rightarrow> frameid_t \<Rightarrow> nat \<Rightarrow> kfptr list \<Rightarrow>
   (kfptr \<Rightarrow> 'pose KeyFrame) \<Rightarrow> (kfptr \<Rightarrow> 'pose KeyFrame) option"
where
  "correct_keyframes G loopKFId fuel [] ks = Some ks"
| "correct_keyframes G loopKFId 0 (keyframe # toCheck) ks = None"
| "correct_keyframes G loopKFId (Suc fuel) (keyframe # toCheck) ks =
     (let Twc = pose_Inverse G (pose (ks keyframe));
          ks1 = fold (correct_child G loopKFId keyframe Twc) (children (ks keyframe)) ks;
          ks2 = ks1(keyframe := (ks1 keyframe)\<lparr>TcwBefGBA := pose (ks1 keyframe)\<rparr>);
          ks3 = ks2(keyframe := (ks2 keyframe)\<lparr>pose := TcwGBA (ks2 keyframe)\<rparr>)
      in correct_keyframes G loopKFId fuel (toCheck @ children (ks keyframe)) ks3)"

text \<open>
  \<^verbatim>\<open>_Run\<close>, the map-point pass (lines 416-446): \<open>correct_mappoint\<close> is the body of the loop
  over \<^verbatim>\<open>map_->GetAllMapPoints()\<close>. The reference keyframe is dereferenced without a null
  check; it is an address here.
\<close>

definition correct_mappoint ::
  "('pose, 'sim, 'rot, 'pt, 'sc) geom \<Rightarrow> frameid_t \<Rightarrow> (kfptr \<Rightarrow> 'pose KeyFrame) \<Rightarrow> mpptr \<Rightarrow>
   (mpptr \<Rightarrow> 'pt MapPoint) \<Rightarrow> (mpptr \<Rightarrow> 'pt MapPoint)"
where
  "correct_mappoint G loopKFId ks mappoint ms =
     (if mp_isBad (ms mappoint) then ms
      else if mp_BAGlobalForKF (ms mappoint) = loopKFId
      then ms(mappoint := (ms mappoint)\<lparr>worldPos := posGBA (ms mappoint)\<rparr>)
      else let refKF = referenceKF (ms mappoint)
           in if kf_BAGlobalForKF (ks refKF) \<noteq> loopKFId then ms
              else let Rcw = pose_R G (TcwBefGBA (ks refKF));
                       tcw = pose_t G (TcwBefGBA (ks refKF));
                       Xc = pt_add G (rot_mul_pt G Rcw (worldPos (ms mappoint))) tcw;
                       Twc = pose_Inverse G (pose (ks refKF));
                       Rwc = pose_R G Twc;
                       twc = pose_t G Twc
                   in ms(mappoint := (ms mappoint)\<lparr>worldPos := pt_add G (rot_mul_pt G Rwc Xc) twc\<rparr>))"

definition correct_mappoints ::
  "('pose, 'sim, 'rot, 'pt, 'sc) geom \<Rightarrow> frameid_t \<Rightarrow> (kfptr \<Rightarrow> 'pose KeyFrame) \<Rightarrow> mpptr list \<Rightarrow>
   (mpptr \<Rightarrow> 'pt MapPoint) \<Rightarrow> (mpptr \<Rightarrow> 'pt MapPoint)"
where
  "correct_mappoints G loopKFId ks mappoints ms = fold (correct_mappoint G loopKFId ks) mappoints ms"

text \<open>
  Modelled from the spec: \<^verbatim>\<open>Map::InformNewBigChange\<close> (Map.cc is not among the sources)
  bumps the map's big-change counter.
\<close>

definition InformNewBigChange :: "('pose, 'pt) world \<Rightarrow> ('pose, 'pt) world" where
  "InformNewBigChange w = w\<lparr>bigChangeIdx := bigChangeIdx w + 1\<rparr>"

text \<open>
  \<^verbatim>\<open>_Run\<close> from the return of \<^verbatim>\<open>Optimizer::GlobalBundleAdjustemnt\<close> on (lines 372-457), for
  a worker that read \<open>idx\<close> from \<^verbatim>\<open>fullBAIdx_\<close> when it started; \<open>s\<close> is the shared state
  at that return. \<open>lmStops\<close> tells whether the wait for the local mapper
  (\<^verbatim>\<open>while (!isStopped() && !isFinished())\<close>) ever ends; \<open>None\<close> is a worker that never
  returns.
\<close>

definition GlobalBA_Run_completion ::
  "('pose, 'sim, 'rot, 'pt, 'sc) geom \<Rightarrow> bool \<Rightarrow> nat \<Rightarrow> 32 word \<Rightarrow> frameid_t \<Rightarrow>
   ('pose, 'pt) sys \<Rightarrow> ('pose, 'pt) sys option"
where
  "GlobalBA_Run_completion G lmStops fuel idx loopKFId s =
     (if idx \<noteq> fullBAIdx (GBA s) then Some s
      else if \<not> stop (GBA s)
      then (let s1 = s\<lparr>calls := calls s @ [LM_RequestStop]\<rparr>
            in if \<not> lmStops then None
               else (case correct_keyframes G loopKFId fuel (keyFrameOrigins (world s1)) (kfs (world s1)) of
                       None \<Rightarrow> None
                     | Some ks \<Rightarrow>
                         (let w2 = (world s1)\<lparr>kfs := ks\<rparr>;
                              w3 = w2\<lparr>mps := correct_mappoints G loopKFId (kfs w2) (allMapPoints w2) (mps w2)\<rparr>;
                              w4 = InformNewBigChange w3;
                              s5 = s1\<lparr>world := w4, calls := calls s1 @ [LM_Release]\<rparr>
                          in Some (s5\<lparr>GBA := (GBA s5)\<lparr>finished := True, running := False\<rparr>\<rparr>))))
      else Some (s\<lparr>GBA := (GBA s)\<lparr>finished := True, running := False\<rparr>\<rparr>))"

text \<open>\<^verbatim>\<open>Run\<close> (lines 460-466); \<^verbatim>\<open>ReusableThread::Reset\<close> detaches and holds the new thread.\<close>

definition GlobalBA_Run :: "frameid_t \<Rightarrow> ('pose, 'pt) sys \<Rightarrow> ('pose, 'pt) sys" where
  "GlobalBA_Run loopKFId s =
     s\<lparr>GBA := (GBA s)\<lparr>running := True, finished := False, stop := False, thread := Some loopKFId\<rparr>\<rparr>"

text \<open>\<^verbatim>\<open>Stop\<close> (lines 468-475); \<^verbatim>\<open>ReusableThread::Detach\<close> lets go of the thread.\<close>

definition GlobalBA_Stop :: "('pose, 'pt) sys \<Rightarrow> ('pose, 'pt) sys" where
  "GlobalBA_Stop s =
     s\<lparr>GBA := (GBA s)\<lparr>stop := True, fullBAIdx := fullBAIdx (GBA s) + 1, thread := None\<rparr>\<rparr>"

definition Running :: "('pose, 'pt) sys \<Rightarrow> bool" where
  "Running s = running (GBA s)"

definition Finished :: "('pose, 'pt) sys \<Rightarrow> bool" where
  "Finished s = finished (GBA s)"

subsection \<open>LoopDetector: FindLoopInCandidateKFs and Detect (lines 46-307)\<close>

text \<open>\<^verbatim>\<open>struct Loop\<close> and the members of \<^verbatim>\<open>LoopDetector\<close> that change or decide.\<close>

record 'sim Loop =
  matchedKF :: kfptr
  Scw :: 'sim
  matchedPoints :: "mpptr option list"
  loopMapPoints :: "mpptr list"

record LoopDetector =
  prevConsistentGroups :: "ConsistentGroup list"
  fixScale :: bool

text \<open>
  The collaborators of the detector, as they answer during one call: the vocabulary
  (\<open>voc_score\<close> is \<^verbatim>\<open>voc_->score\<close> on the two keyframes' BoW vectors, cast to
  \<^verbatim>\<open>float\<close>), the keyframe database, the ORB matcher, the Sim3 solver (a value of type
  \<open>'solver\<close> is the state of one solver; \<open>iterate\<close> returns \<^verbatim>\<open>found\<close>, the \<^verbatim>\<open>Scm\<close> and
  inlier mask it writes, and the solver's next state) and \<^verbatim>\<open>Optimizer::OptimizeSim3\<close>,
  which returns the inlier count and what it writes to its reference arguments. Scores
  are real numbers; the floating-point constants 0.99, 7.5 and 10 are passed as they
  are written.
\<close>

record ('sim, 'solver) collaborators =
  voc_score :: "kfptr \<Rightarrow> kfptr \<Rightarrow> real"
  DetectLoopCandidates :: "kfptr \<Rightarrow> real \<Rightarrow> kfptr list"
  SearchByBoW :: "kfptr \<Rightarrow> kfptr \<Rightarrow> int \<times> mpptr option list"
  Sim3Solver_new :: "kfptr \<Rightarrow> kfptr \<Rightarrow> mpptr option list \<Rightarrow> bool \<Rightarrow> 'solver"
  SetRansacParameters :: "real \<Rightarrow> int \<Rightarrow> int \<Rightarrow> 'solver \<Rightarrow> 'solver"
  iterate :: "int \<Rightarrow> 'solver \<Rightarrow> (bool \<times> 'sim \<times> bool list) \<times> 'solver"
  terminate :: "'solver \<Rightarrow> bool"
  SearchBySim3 :: "kfptr \<Rightarrow> kfptr \<Rightarrow> mpptr option list \<Rightarrow> 'sim \<Rightarrow> real \<Rightarrow> mpptr option list"
  OptimizeSim3 ::
    "kfptr \<Rightarrow> kfptr \<Rightarrow> mpptr option list \<Rightarrow> 'sim \<Rightarrow> real \<Rightarrow> bool \<Rightarrow> int \<times> mpptr option list \<times> 'sim"
  SearchByProjection ::
    "kfptr \<Rightarrow> 'sim \<Rightarrow> mpptr list \<Rightarrow> mpptr option list \<Rightarrow> int \<Rightarrow> mpptr option list"

text \<open>
  \<^verbatim>\<open>FindLoopInCandidateKFs\<close>, first loop (lines 77-104): what it leaves at index \<open>i\<close> of
  the vectors \<^verbatim>\<open>discarded\<close>, \<^verbatim>\<open>vmatches\<close> and \<^verbatim>\<open>solvers\<close>.
\<close>

record 'solver candidate_slot =
  discarded :: bool
  vmatches :: "mpptr option list"
  solver :: "'solver option"

definition setup_candidate ::
  "('sim, 'solver) collaborators \<Rightarrow> (kfptr \<Rightarrow> 'pose KeyFrame) \<Rightarrow> kfptr \<Rightarrow> bool \<Rightarrow> kfptr \<Rightarrow>
   'solver candidate_slot"
where
  "setup_candidate E ks currentKF fixScale' candidateKF =
     (if kf_isBad (ks candidateKF)
      then \<lparr>discarded = True, vmatches = [], solver = None\<rparr>
      else (case SearchByBoW E currentKF candidateKF of (nmatches, vm) \<Rightarrow>
              if nmatches < 20
              then \<lparr>discarded = True, vmatches = vm, solver = None\<rparr>
              else \<lparr>discarded = False, vmatches = vm,
                    solver = Some (SetRansacParameters E 0.99 20 300
                                     (Sim3Solver_new E currentKF candidateKF vm fixScale'))\<rparr>))"

text \<open>
  Lines 133-135: \<^verbatim>\<open>matches\<close> has the size of \<^verbatim>\<open>vmatches[i]\<close> and keeps the inliers. (A
  mask longer than \<^verbatim>\<open>vmatches[i]\<close> would make the code write past the end of
  \<^verbatim>\<open>matches\<close>; the solver's mask has one entry per match.)
\<close>

definition inlier_matches :: "bool list \<Rightarrow> mpptr option list \<Rightarrow> mpptr option list" where
  "inlier_matches isInlier vm =
     map (\<lambda>j. if j < length isInlier \<and> isInlier ! j then vm ! j else None) [0..<length vm]"

text \<open>
  Body of the inner \<^verbatim>\<open>for\<close> of the RANSAC loop (lines 112-150) for index \<open>i\<close>. The
  state is the slots and \<^verbatim>\<open>ncandidates\<close>; the first component of the result is what a
  \<^verbatim>\<open>return true\<close> writes to \<^verbatim>\<open>loop\<close> (matched keyframe, \<^verbatim>\<open>Scw\<close>, matched points), or
  \<open>None\<close> when the loop goes on. A slot that is not discarded holds a solver.
\<close>

definition ransac_candidate ::
  "('sim, 'solver) collaborators \<Rightarrow> ('pose, 'sim, 'rot, 'pt, 'sc) geom \<Rightarrow>
   (kfptr \<Rightarrow> 'pose KeyFrame) \<Rightarrow> kfptr \<Rightarrow> bool \<Rightarrow> kfptr list \<Rightarrow> nat \<Rightarrow>
   'solver candidate_slot list \<times> int \<Rightarrow>
   (kfptr \<times> 'sim \<times> mpptr option list) option \<times> 'solver candidate_slot list \<times> int"
where
  "ransac_candidate E G ks currentKF fixScale' candidateKFs' i = (\<lambda>(slots, ncandidates).
     let sl = slots ! i
     in if discarded sl then (None, slots, ncandidates)
        else (case solver sl of
                None \<Rightarrow> (None, slots, ncandidates)
              | Some sv \<Rightarrow>
                  (case iterate E 5 sv of ((found, Scm, isInlier), sv') \<Rightarrow>
                     let candidateKF = candidateKFs' ! i;
                         st1 = (if terminate E sv'
                                then (slots[i := sl\<lparr>discarded := True, solver := Some sv'\<rparr>],
                                      ncandidates - 1)
                                else (slots[i := sl\<lparr>solver := Some sv'\<rparr>], ncandidates))
                     in if found
                        then (let matches = inlier_matches isInlier (vmatches sl);
                                  matches1 = SearchBySim3 E currentKF candidateKF matches Scm 7.5
                              in case OptimizeSim3 E currentKF candidateKF matches1 Scm 10 fixScale' of
                                   (nInliers, matches2, Scm2) \<Rightarrow>
                                     if nInliers \<ge> 20
                                     then (let Smw = Sim3_of_pose G (pose (ks candidateKF))
                                           in (Some (candidateKF, sim_mul G Scm2 Smw, matches2), st1))
                                     else (None, st1))
                        else (None, st1))))"

text \<open>One pass of the inner \<^verbatim>\<open>for\<close> over the indices, left at the first \<^verbatim>\<open>return true\<close>.\<close>

fun ransac_pass ::
  "('sim, 'solver) collaborators \<Rightarrow> ('pose, 'sim, 'rot, 'pt, 'sc) geom \<Rightarrow>
   (kfptr \<Rightarrow> 'pose KeyFrame) \<Rightarrow> kfptr \<Rightarrow> bool \<Rightarrow> kfptr list \<Rightarrow> nat list \<Rightarrow>
   'solver candidate_slot list \<times> int \<Rightarrow>
   (kfptr \<times> 'sim \<times> mpptr option list) option \<times> 'solver candidate_slot list \<times> int"
where
  "ransac_pass E G ks currentKF fixScale' candidateKFs' [] st = (None, st)"
| "ransac_pass E G ks currentKF fixScale' candidateKFs' (i # is) st =
     (case ransac_candidate E G ks currentKF fixScale' candidateKFs' i st of
        (Some r, st') \<Rightarrow> (Some r, st')
      | (None, st') \<Rightarrow> ransac_pass E G ks currentKF fixScale' candidateKFs' is st')"

text \<open>
  \<^verbatim>\<open>while (ncandidates > 0)\<close> (lines 108-152). Nothing in this file bounds the number of
  passes (that is left to the solvers' \<^verbatim>\<open>terminate\<close>), so the loop runs on fuel: \<open>None\<close>
  is a loop still running when the fuel is used up, \<open>Some None\<close> is \<^verbatim>\<open>return false\<close>.
\<close>

fun ransac_loop ::
  "('sim, 'solver) collaborators \<Rightarrow> ('pose, 'sim, 'rot, 'pt, 'sc) geom \<Rightarrow>
   (kfptr \<Rightarrow> 'pose KeyFrame) \<Rightarrow> kfptr \<Rightarrow> bool \<Rightarrow> kfptr list \<Rightarrow> nat \<Rightarrow>
   'solver candidate_slot list \<times> int \<Rightarrow> (kfptr \<times> 'sim \<times> mpptr option list) option option"
where
  "ransac_loop E G ks currentKF fixScale' candidateKFs' 0 (slots, ncandidates) =
     (if ncandidates > 0 then None else Some None)"
| "ransac_loop E G ks currentKF fixScale' candidateKFs' (Suc fuel) (slots, ncandidates) =
     (if ncandidates > 0
      then (case ransac_pass E G ks currentKF fixScale' candidateKFs' [0..<length candidateKFs']
                   (slots, ncandidates) of
              (Some r, st') \<Rightarrow> Some (Some r)
            | (None, st') \<Rightarrow> ransac_loop E G ks currentKF fixScale' candidateKFs' fuel st')
      else Some None)"

text \<open>
  \<^verbatim>\<open>FindLoopInCandidateKFs\<close>: the result is \<^verbatim>\<open>found\<close>, the \<^verbatim>\<open>loop\<close> argument as the call
  leaves it, and the recorded calls (one \<^verbatim>\<open>SetNotErase\<close> per candidate, in order).
\<close>

definition FindLoopInCandidateKFs ::
  "('sim, 'solver) collaborators \<Rightarrow> ('pose, 'sim, 'rot, 'pt, 'sc) geom \<Rightarrow> nat \<Rightarrow>
   (kfptr \<Rightarrow> 'pose KeyFrame) \<Rightarrow> kfptr \<Rightarrow> kfptr list \<Rightarrow> 'sim Loop \<Rightarrow> bool \<Rightarrow> event list \<Rightarrow>
   (bool \<times> 'sim Loop \<times> event list) option"
where
  "FindLoopInCandidateKFs E G fuel ks currentKF candidateKFs' loop fixScale' cs =
     (let slots = map (setup_candidate E ks currentKF fixScale') candidateKFs';
          cs1 = cs @ map KF_SetNotErase candidateKFs';
          ncandidates = int (length (filter (\<lambda>sl. \<not> discarded sl) slots))
      in case ransac_loop E G ks currentKF fixScale' candidateKFs' fuel (slots, ncandidates) of
           None \<Rightarrow> None
         | Some None \<Rightarrow> Some (False, loop, cs1)
         | Some (Some (candidateKF, S, matches)) \<Rightarrow>
             Some (True, loop\<lparr>matchedKF := candidateKF, Scw := S, matchedPoints := matches\<rparr>, cs1))"

text \<open>
  \<^verbatim>\<open>Detect\<close>, lines 170-178: the lowest score to a covisible keyframe that is not bad,
  starting from 1.
\<close>

definition minScore_of ::
  "('sim, 'solver) collaborators \<Rightarrow> (kfptr \<Rightarrow> 'pose KeyFrame) \<Rightarrow> kfptr \<Rightarrow> real"
where
  "minScore_of E ks currentKF =
     fold (\<lambda>neighborKF minScore.
             if kf_isBad (ks neighborKF) then minScore
             else min minScore (voc_score E currentKF neighborKF))
       (covisible (ks currentKF)) 1"

text \<open>
  \<^verbatim>\<open>Detect\<close>, lines 259-273: the map points of the matched keyframe and its neighbours,
  each taken once thanks to the stamp \<^verbatim>\<open>loopPointForKF\<close>.
\<close>

definition collect_loop_point ::
  "frameid_t \<Rightarrow> mpptr option \<Rightarrow> mpptr list \<times> (mpptr \<Rightarrow> 'pt MapPoint) \<Rightarrow>
   mpptr list \<times> (mpptr \<Rightarrow> 'pt MapPoint)"
where
  "collect_loop_point currentId mappoint = (\<lambda>(lmps, ms).
     case mappoint of
       None \<Rightarrow> (lmps, ms)
     | Some p \<Rightarrow>
         if mp_isBad (ms p) \<or> loopPointForKF (ms p) = currentId then (lmps, ms)
         else (lmps @ [p], ms(p := (ms p)\<lparr>loopPointForKF := currentId\<rparr>)))"

definition collect_loop_points ::
  "(kfptr \<Rightarrow> 'pose KeyFrame) \<Rightarrow> frameid_t \<Rightarrow> kfptr list \<Rightarrow> (mpptr \<Rightarrow> 'pt MapPoint) \<Rightarrow>
   mpptr list \<times> (mpptr \<Rightarrow> 'pt MapPoint)"
where
  "collect_loop_points ks currentId connectedKFs ms =
     fold (\<lambda>connectedKF. fold (collect_loop_point currentId) (mapPointMatches (ks connectedKF)))
       connectedKFs ([], ms)"

text \<open>
  \<^verbatim>\<open>Detect\<close>. The result is \<open>None\<close> when the RANSAC loop does not end within the fuel,
  and otherwise the returned boolean, the \<^verbatim>\<open>loop\<close> argument as the call leaves it, the
  detector and the shared state.
\<close>

definition Detect ::
  "('sim, 'solver) collaborators \<Rightarrow> ('pose, 'sim, 'rot, 'pt, 'sc) geom \<Rightarrow> nat \<Rightarrow>
   kfptr \<Rightarrow> 'sim Loop \<Rightarrow> 32 word \<Rightarrow> LoopDetector \<Rightarrow> ('pose, 'pt) sys \<Rightarrow>
   (bool \<times> 'sim Loop \<times> LoopDetector \<times> ('pose, 'pt) sys) option"
where
  "Detect E G fuel currentKF loop lastLoopKFId' d s =
     (let ks = kfs (world s)
      in if sint (to_int (kf_id (ks currentKF))) < sint (lastLoopKFId' + 10)
         then Some (False, loop, d, s)
         else
           (let minScore = minScore_of E ks currentKF;
                tmpCandidateKFs = DetectLoopCandidates E currentKF minScore;
                s1 = s\<lparr>calls := calls s @ [DB_DetectLoopCandidates currentKF]\<rparr>
            in if tmpCandidateKFs = []
               then Some (False, loop, d\<lparr>prevConsistentGroups := []\<rparr>, s1)
               else
                 (let acc = CheckConsistency (\<lambda>k. connected (ks k)) (prevConsistentGroups d)
                              tmpCandidateKFs;
                      d1 = d\<lparr>prevConsistentGroups := currConsistentGroups acc\<rparr>;
                      cands = candidateKFs acc
                  in if cands = [] then Some (False, loop, d1, s1)
                     else
                       (case FindLoopInCandidateKFs E G fuel ks currentKF cands loop (fixScale d)
                               (calls s1) of
                          None \<Rightarrow> None
                        | Some (found, loop1, cs2) \<Rightarrow>
                            if \<not> found
                            then Some (False, loop1, d1,
                                       s1\<lparr>calls := cs2 @ map KF_SetErase cands @ [KF_SetErase currentKF]\<rparr>)
                            else
                              (let connectedKFs = covisible (ks (matchedKF loop1)) @ [matchedKF loop1];
                                   (lmps, ms) = collect_loop_points ks (kf_id (ks currentKF))
                                                  connectedKFs (mps (world s1));
                                   w2 = (world s1)\<lparr>mps := ms\<rparr>;
                                   loop2 = loop1\<lparr>loopMapPoints := lmps\<rparr>;
                                   loop3 = loop2\<lparr>matchedPoints :=
                                              SearchByProjection E currentKF (Scw loop2)
                                                (loopMapPoints loop2) (matchedPoints loop2) 10\<rparr>;
                                   nmatches = length (filter (\<lambda>mappoint. mappoint \<noteq> None)
                                                        (matchedPoints loop3))
                               in if nmatches \<ge> 40
                                  then Some (True, loop3, d1,
                                             s1\<lparr>world := w2,
                                                calls := cs2 @ map KF_SetErase
                                                  (filter (\<lambda>candidateKF. candidateKF \<noteq> matchedKF loop3) cands)\<rparr>)
                                  else Some (False, loop3, d1,
                                             s1\<lparr>world := w2,
                                                calls := cs2 @ map KF_SetErase cands\<rparr>))))))"

text \<open>
  A call of \<^verbatim>\<open>Detect\<close> that gets as far as the consistency check with the candidates
  \<open>tmpCandidateKFs\<close>: the keyframe passes the test of line 164 and the database answers
  \<open>tmpCandidateKFs\<close>.
\<close>

definition Detect_queries ::
  "('sim, 'solver) collaborators \<Rightarrow> ('pose, 'pt) sys \<Rightarrow> kfptr \<Rightarrow> 32 word \<Rightarrow> kfptr list \<Rightarrow> bool"
where
  "Detect_queries E s currentKF lastLoopKFId' tmpCandidateKFs =
     (\<not> sint (to_int (kf_id (kfs (world s) currentKF))) < sint (lastLoopKFId' + 10) \<and>
      DetectLoopCandidates E currentKF (minScore_of E (kfs (world s)) currentKF) = tmpCandidateKFs)"

subsection \<open>LoopCorrector: Correct (lines 501-693)\<close>

text \<open>
  \<^verbatim>\<open>KeyFrameAndPose\<close> and \<^verbatim>\<open>LoopConnections\<close> are \<^verbatim>\<open>std::map\<close>s keyed by keyframe pointers:
  lists of entries in increasing key order, which is the order a range-\<^verbatim>\<open>for\<close> visits.
  \<open>map_assign\<close> is \<^verbatim>\<open>m[k] = v\<close>.
\<close>

fun map_assign :: "kfptr \<Rightarrow> 'v \<Rightarrow> (kfptr \<times> 'v) list \<Rightarrow> (kfptr \<times> 'v) list" where
  "map_assign k v [] = [(k, v)]"
| "map_assign k v ((k', v') # m) =
     (if k < k' then (k, v) # (k', v') # m
      else if k = k' then (k, v) # m
      else (k', v') # map_assign k v m)"

text \<open>
  The collaborators of the corrector. Modelled from the spec (the classes behind them
  are not among the sources): \<^verbatim>\<open>KeyFrame::UpdateConnections\<close> refreshes covisibility
  links, so \<open>UpdateConnections k w\<close> gives, for every keyframe, its covisible vector,
  connected set and children after the call on \<open>k\<close> in \<open>w\<close>, and nothing else of the map
  changes; \<^verbatim>\<open>MapPoint::Replace\<close>, \<^verbatim>\<open>ORBmatcher::Fuse\<close> and
  \<^verbatim>\<open>Optimizer::OptimizeEssentialGraph\<close> may change the map in any way (\<open>Fuse\<close> also
  returns the vector \<^verbatim>\<open>replacePoints\<close> it fills).
\<close>

record ('pose, 'sim, 'pt) corrector_collaborators =
  UpdateConnections :: "kfptr \<Rightarrow> ('pose, 'pt) world \<Rightarrow> kfptr \<Rightarrow> kfptr list \<times> kfptr set \<times> kfptr list"
  Replace :: "mpptr \<Rightarrow> mpptr \<Rightarrow> ('pose, 'pt) world \<Rightarrow> ('pose, 'pt) world"
  Fuse :: "kfptr \<Rightarrow> 'sim \<Rightarrow> mpptr list \<Rightarrow> real \<Rightarrow> ('pose, 'pt) world \<Rightarrow>
           mpptr option list \<times> ('pose, 'pt) world"
  OptimizeEssentialGraph ::
    "kfptr \<Rightarrow> kfptr \<Rightarrow> (kfptr \<times> 'sim) list \<Rightarrow> (kfptr \<times> 'sim) list \<Rightarrow>
     (kfptr \<times> kfptr set) list \<Rightarrow> bool \<Rightarrow> ('pose, 'pt) world \<Rightarrow> ('pose, 'pt) world"

text \<open>A call \<^verbatim>\<open>k->UpdateConnections()\<close>: the links are refreshed and the call is recorded.\<close>

definition call_UpdateConnections ::
  "('pose, 'sim, 'pt) corrector_collaborators \<Rightarrow> kfptr \<Rightarrow>
   ('pose, 'pt) world \<times> event list \<Rightarrow> ('pose, 'pt) world \<times> event list"
where
  "call_UpdateConnections C k = (\<lambda>(w, cs).
     (w\<lparr>kfs := (\<lambda>k'. case UpdateConnections C k w k' of (cov, con, ch) \<Rightarrow>
                     (kfs w k')\<lparr>covisible := cov, connected := con, children := ch\<rparr>)\<rparr>,
      cs @ [KF_UpdateConnections k]))"

text \<open>A call \<^verbatim>\<open>p->Replace(q)\<close>.\<close>

definition call_Replace ::
  "('pose, 'sim, 'pt) corrector_collaborators \<Rightarrow> mpptr \<Rightarrow> mpptr \<Rightarrow>
   ('pose, 'pt) world \<times> event list \<Rightarrow> ('pose, 'pt) world \<times> event list"
where
  "call_Replace C p q = (\<lambda>(w, cs). (Replace C p q w, cs @ [MP_Replace p q]))"

text \<open>
  Lines 554-576, under the map-update lock: the body of the loop over \<^verbatim>\<open>connectedKFs\<close>,
  and the loop started from \<^verbatim>\<open>CorrectedSim3[currentKF] = Scw\<close> and an empty
  \<^verbatim>\<open>NonCorrectedSim3\<close>.
\<close>

definition propagate_pose ::
  "('pose, 'sim, 'rot, 'pt, 'sc) geom \<Rightarrow> (kfptr \<Rightarrow> 'pose KeyFrame) \<Rightarrow> kfptr \<Rightarrow> 'pose \<Rightarrow> 'sim \<Rightarrow>
   kfptr \<Rightarrow> (kfptr \<times> 'sim) list \<times> (kfptr \<times> 'sim) list \<Rightarrow>
   (kfptr \<times> 'sim) list \<times> (kfptr \<times> 'sim) list"
where
  "propagate_pose G ks currentKF Twc Scw' connectedKF = (\<lambda>(CorrectedSim3, NonCorrectedSim3).
     let Tiw = pose (ks connectedKF);
         CorrectedSim3' =
           (if connectedKF \<noteq> currentKF
            then let Tic = pose_mul G Tiw Twc;
                     Sic = Sim3_of_pose G Tic;
                     CorrectedSiw = sim_mul G Sic Scw'
                 in map_assign connectedKF CorrectedSiw CorrectedSim3
            else CorrectedSim3)
     in (CorrectedSim3', map_assign connectedKF (Sim3_of_pose G Tiw) NonCorrectedSim3))"

definition propagate_poses ::
  "('pose, 'sim, 'rot, 'pt, 'sc) geom \<Rightarrow> (kfptr \<Rightarrow> 'pose KeyFrame) \<Rightarrow> kfptr \<Rightarrow> 'sim \<Rightarrow>
   kfptr list \<Rightarrow> (kfptr \<times> 'sim) list \<times> (kfptr \<times> 'sim) list"
where
  "propagate_poses G ks currentKF Scw' connectedKFs =
     (let CorrectedSim3 = map_assign currentKF Scw' [];
          Twc = pose_Inverse G (pose (ks currentKF))
      in fold (propagate_pose G ks currentKF Twc Scw') connectedKFs (CorrectedSim3, []))"

text \<open>
  Lines 587-600: the body of the loop over the map points of \<^verbatim>\<open>connectedKF\<close>;
  \<open>currentId\<close> is \<^verbatim>\<open>currentKF->id\<close> and \<open>refId\<close> is \<^verbatim>\<open>connectedKF->id\<close>.
\<close>

definition correct_point ::
  "('pose, 'sim, 'rot, 'pt, 'sc) geom \<Rightarrow> frameid_t \<Rightarrow> frameid_t \<Rightarrow> 'sim \<Rightarrow> mpptr option \<Rightarrow>
   (mpptr \<Rightarrow> 'pt MapPoint) \<times> event list \<Rightarrow> (mpptr \<Rightarrow> 'pt MapPoint) \<times> event list"
where
  "correct_point G currentId refId correction mappoint = (\<lambda>(ms, cs).
     case mappoint of
       None \<Rightarrow> (ms, cs)
     | Some p \<Rightarrow>
         if mp_isBad (ms p) \<or> correctedByKF (ms p) = currentId then (ms, cs)
         else (let P3Dw = worldPos (ms p);
                   CorrectedP3Dw = sim_Map G correction P3Dw
               in (ms(p := (ms p)\<lparr>worldPos := CorrectedP3Dw, correctedByKF := currentId,
                                    correctedReference := refId\<rparr>),
                   cs @ [MP_UpdateNormalAndDepth p])))"

text \<open>
  Lines 579-613: the body of the loop over \<^verbatim>\<open>CorrectedSim3\<close> for one entry. The read
  \<^verbatim>\<open>NonCorrectedSim3[connectedKF]\<close> would insert a default \<^verbatim>\<open>Sim3\<close> for a missing key;
  every key of \<^verbatim>\<open>CorrectedSim3\<close> is a key of \<^verbatim>\<open>NonCorrectedSim3\<close>.
\<close>

definition correct_neighbor ::
  "('pose, 'sim, 'pt) corrector_collaborators \<Rightarrow> ('pose, 'sim, 'rot, 'pt, 'sc) geom \<Rightarrow> kfptr \<Rightarrow>
   (kfptr \<times> 'sim) list \<Rightarrow> kfptr \<times> 'sim \<Rightarrow>
   ('pose, 'pt) world \<times> event list \<Rightarrow> ('pose, 'pt) world \<times> event list"
where
  "correct_neighbor C G currentKF NonCorrectedSim3 v = (\<lambda>(w, cs).
     let connectedKF = fst v;
         CorrectedSiw = snd v;
         CorrectedSwi = sim_Inverse G CorrectedSiw;
         Siw = (case map_of NonCorrectedSim3 connectedKF of None \<Rightarrow> Sim3_default G | Some S \<Rightarrow> S);
         correction = sim_mul G CorrectedSwi Siw;
         (ms, cs1) = fold (correct_point G (kf_id (kfs w currentKF)) (kf_id (kfs w connectedKF)) correction)
                       (mapPointMatches (kfs w connectedKF)) (mps w, cs);
         w1 = w\<lparr>mps := ms\<rparr>;
         R = sim_R G CorrectedSiw;
         t = sim_t G CorrectedSiw;
         invs = sc_recip G (sim_Scale G CorrectedSiw);
         w2 = w1\<lparr>kfs := (kfs w1)(connectedKF :=
                  (kfs w1 connectedKF)\<lparr>pose := CameraPose_of G R (sc_mul_pt G invs t)\<rparr>)\<rparr>
     in call_UpdateConnections C connectedKF (w2, cs1))"

definition correct_neighbors ::
  "('pose, 'sim, 'pt) corrector_collaborators \<Rightarrow> ('pose, 'sim, 'rot, 'pt, 'sc) geom \<Rightarrow> kfptr \<Rightarrow>
   (kfptr \<times> 'sim) list \<Rightarrow> (kfptr \<times> 'sim) list \<Rightarrow>
   ('pose, 'pt) world \<times> event list \<Rightarrow> ('pose, 'pt) world \<times> event list"
where
  "correct_neighbors C G currentKF CorrectedSim3 NonCorrectedSim3 =
     fold (correct_neighbor C G currentKF NonCorrectedSim3) CorrectedSim3"

text \<open>
  Lines 617-634, loop fusion at the current keyframe, for slot \<open>i\<close>. \<^verbatim>\<open>GetMapPoint(i)\<close>
  reads slot \<open>i\<close> of the keyframe's map-point matches (the vector \<^verbatim>\<open>matchedPoints\<close> has
  one entry per slot) and \<^verbatim>\<open>AddMapPoint(loopMP, i)\<close> writes it.
\<close>

definition fuse_matched_point ::
  "('pose, 'sim, 'pt) corrector_collaborators \<Rightarrow> kfptr \<Rightarrow> mpptr option list \<Rightarrow> nat \<Rightarrow>
   ('pose, 'pt) world \<times> event list \<Rightarrow> ('pose, 'pt) world \<times> event list"
where
  "fuse_matched_point C currentKF matchedPoints' i = (\<lambda>(w, cs).
     case matchedPoints' ! i of
       None \<Rightarrow> (w, cs)
     | Some loopMP \<Rightarrow>
         (let slots = mapPointMatches (kfs w currentKF);
              currMP = (if i < length slots then slots ! i else None)
          in case currMP of
               Some p \<Rightarrow> call_Replace C p loopMP (w, cs)
             | None \<Rightarrow>
                 (w\<lparr>kfs := (kfs w)(currentKF :=
                       (kfs w currentKF)\<lparr>mapPointMatches := slots[i := Some loopMP]\<rparr>)\<rparr>,
                  cs @ [KF_AddMapPoint currentKF loopMP i, MP_AddObservation loopMP currentKF i,
                        MP_ComputeDistinctiveDescriptors loopMP])))"

text \<open>
  Lines 641-658: the body of the second loop over \<^verbatim>\<open>CorrectedSim3\<close>: \<^verbatim>\<open>Fuse\<close> with radius
  4, then each duplicate it reports is replaced by its loop-side point.
\<close>

definition replace_fused ::
  "('pose, 'sim, 'pt) corrector_collaborators \<Rightarrow> mpptr option list \<Rightarrow> mpptr list \<Rightarrow> nat \<Rightarrow>
   ('pose, 'pt) world \<times> event list \<Rightarrow> ('pose, 'pt) world \<times> event list"
where
  "replace_fused C replacePoints loopMapPoints' i =
     (case (if i < length replacePoints then replacePoints ! i else None) of
        None \<Rightarrow> (\<lambda>st. st)
      | Some mappoint \<Rightarrow> call_Replace C mappoint (loopMapPoints' ! i))"

definition fuse_neighbor ::
  "('pose, 'sim, 'pt) corrector_collaborators \<Rightarrow> mpptr list \<Rightarrow> kfptr \<times> 'sim \<Rightarrow>
   ('pose, 'pt) world \<times> event list \<Rightarrow> ('pose, 'pt) world \<times> event list"
where
  "fuse_neighbor C loopMapPoints' v = (\<lambda>(w, cs).
     case Fuse C (fst v) (snd v) loopMapPoints' 4 w of (replacePoints, w1) \<Rightarrow>
       fold (replace_fused C replacePoints loopMapPoints') [0..<length loopMapPoints']
         (w1, cs @ [Matcher_Fuse (fst v)]))"

text \<open>
  Lines 661-676: the body of the loop that collects the new links of \<^verbatim>\<open>connectedKF\<close>:
  its connected keyframes after the refresh, without its previous neighbours and
  without the keyframes of \<^verbatim>\<open>connectedKFs\<close>.
\<close>

definition loop_connections_of ::
  "('pose, 'sim, 'pt) corrector_collaborators \<Rightarrow> kfptr list \<Rightarrow> kfptr \<Rightarrow>
   (kfptr \<times> kfptr set) list \<times> ('pose, 'pt) world \<times> event list \<Rightarrow>
   (kfptr \<times> kfptr set) list \<times> ('pose, 'pt) world \<times> event list"
where
  "loop_connections_of C connectedKFs connectedKF = (\<lambda>(LoopConnections, w, cs).
     let prevNeighbors = covisible (kfs w connectedKF);
         (w1, cs1) = call_UpdateConnections C connectedKF (w, cs);
         links = connected (kfs w1 connectedKF) - set prevNeighbors - set connectedKFs
     in (map_assign connectedKF links LoopConnections, w1, cs1))"

text \<open>
  \<^verbatim>\<open>Correct\<close>, lines 546-685: from \<^verbatim>\<open>currentKF->UpdateConnections()\<close> to the two loop
  edges, on the map and the recorded calls. \<open>fixScale'\<close> is the member \<^verbatim>\<open>fixScale_\<close> of
  the corrector.
\<close>

definition Correct_map ::
  "('pose, 'sim, 'pt) corrector_collaborators \<Rightarrow> ('pose, 'sim, 'rot, 'pt, 'sc) geom \<Rightarrow> bool \<Rightarrow>
   kfptr \<Rightarrow> 'sim Loop \<Rightarrow> ('pose, 'pt) world \<times> event list \<Rightarrow> ('pose, 'pt) world \<times> event list"
where
  "Correct_map C G fixScale' currentKF loop st =
     (let (w3, cs3) = call_UpdateConnections C currentKF st;
          connectedKFs = covisible (kfs w3 currentKF) @ [currentKF];
          (CorrectedSim3, NonCorrectedSim3) =
             propagate_poses G (kfs w3) currentKF (Scw loop) connectedKFs;
          st4 = correct_neighbors C G currentKF CorrectedSim3 NonCorrectedSim3 (w3, cs3);
          st5 = fold (fuse_matched_point C currentKF (matchedPoints loop))
                  [0..<length (matchedPoints loop)] st4;
          st6 = fold (fuse_neighbor C (loopMapPoints loop)) CorrectedSim3 st5;
          (LoopConnections, w7, cs7) =
             fold (loop_connections_of C connectedKFs) connectedKFs ([], st6);
          w8 = OptimizeEssentialGraph C (matchedKF loop) currentKF NonCorrectedSim3
                 CorrectedSim3 LoopConnections fixScale' w7;
          w9 = InformNewBigChange w8
      in (w9, cs7 @ [Optimizer_OptimizeEssentialGraph (matchedKF loop) currentKF,
                     KF_AddLoopEdge (matchedKF loop) currentKF,
                     KF_AddLoopEdge currentKF (matchedKF loop)]))"

text \<open>
  \<^verbatim>\<open>Correct\<close>. \<open>lmStops\<close> tells whether the wait \<^verbatim>\<open>while (!localMapper_->isStopped())\<close>
  ever ends; the result is \<open>None\<close> when it does not.
\<close>

definition Correct ::
  "('pose, 'sim, 'pt) corrector_collaborators \<Rightarrow> ('pose, 'sim, 'rot, 'pt, 'sc) geom \<Rightarrow> bool \<Rightarrow>
   bool \<Rightarrow> kfptr \<Rightarrow> 'sim Loop \<Rightarrow> ('pose, 'pt) sys \<Rightarrow> ('pose, 'pt) sys option"
where
  "Correct C G lmStops fixScale' currentKF loop s =
     (let s1 = s\<lparr>calls := calls s @ [LM_RequestStop]\<rparr>;
          s2 = (if Running s1 then GlobalBA_Stop s1 else s1)
      in if \<not> lmStops then None
         else
           (let (w9, cs9) = Correct_map C G fixScale' currentKF loop (world s2, calls s2);
                s10 = GlobalBA_Run (kf_id (kfs w9 currentKF)) (s2\<lparr>world := w9, calls := cs9\<rparr>)
            in Some (s10\<lparr>calls := calls s10 @ [LM_Release]\<rparr>)))"



subsection \<open>LoopClosingImpl (lines 695-869)\<close>

text \<open>The members of \<^verbatim>\<open>LoopClosingImpl\<close> that are plain data.\<close>

record LoopClosingImpl =
  resetRequested :: bool
  finishRequested :: bool
  lc_finished :: bool
  lastLoopKFId :: frameid_t
  keyFrameQueue :: "kfptr list"

text \<open>The constructor (lines 700-704).\<close>

definition LoopClosingImpl_init :: LoopClosingImpl where
  "LoopClosingImpl_init =
     \<lparr>resetRequested = False, finishRequested = False, lc_finished = True, lastLoopKFId = 0,
      keyFrameQueue = []\<rparr>"

text \<open>\<^verbatim>\<open>InsertKeyFrame\<close>; \<open>keyframe_id\<close> is \<^verbatim>\<open>keyframe->id\<close>.\<close>

definition InsertKeyFrame :: "kfptr \<Rightarrow> frameid_t \<Rightarrow> LoopClosingImpl \<Rightarrow> LoopClosingImpl" where
  "InsertKeyFrame keyframe keyframe_id lc =
     (if keyframe_id \<noteq> 0 then lc\<lparr>keyFrameQueue := keyFrameQueue lc @ [keyframe]\<rparr> else lc)"

definition CheckNewKeyFrames :: "LoopClosingImpl \<Rightarrow> bool" where
  "CheckNewKeyFrames lc = (keyFrameQueue lc \<noteq> [])"

definition ResetIfRequested :: "LoopClosingImpl \<Rightarrow> LoopClosingImpl" where
  "ResetIfRequested lc =
     (if resetRequested lc
      then lc\<lparr>keyFrameQueue := [], lastLoopKFId := 0, resetRequested := False\<rparr>
      else lc)"

definition CheckFinish :: "LoopClosingImpl \<Rightarrow> bool" where
  "CheckFinish lc = finishRequested lc"

definition SetFinish :: "LoopClosingImpl \<Rightarrow> LoopClosingImpl" where
  "SetFinish lc = lc\<lparr>lc_finished := True\<rparr>"

text \<open>
  \<^verbatim>\<open>Run\<close>, lines 726-755: what one turn of the \<^verbatim>\<open>while\<close> does with the front of the
  queue. \<open>garbage\<close> is the value of the uninitialised pointer \<^verbatim>\<open>loop.matchedKF\<close> of the
  local \<^verbatim>\<open>loop\<close>. The detector and the corrector are built from the same \<^verbatim>\<open>fixScale\<close>
  (line 702). The result is \<open>None\<close> when \<^verbatim>\<open>Detect\<close> or \<^verbatim>\<open>Correct\<close> does not return.
\<close>

definition process_keyframe ::
  "('sim, 'solver) collaborators \<Rightarrow> ('pose, 'sim, 'pt) corrector_collaborators \<Rightarrow>
   ('pose, 'sim, 'rot, 'pt, 'sc) geom \<Rightarrow> bool \<Rightarrow> nat \<Rightarrow> kfptr \<Rightarrow>
   LoopClosingImpl \<times> LoopDetector \<times> ('pose, 'pt) sys \<Rightarrow>
   (LoopClosingImpl \<times> LoopDetector \<times> ('pose, 'pt) sys) option"
where
  "process_keyframe E C G lmStops fuel garbage = (\<lambda>(lc, d, s).
     case keyFrameQueue lc of
       [] \<Rightarrow> Some (lc, d, s)
     | currentKF # rest \<Rightarrow>
         (let lc1 = lc\<lparr>keyFrameQueue := rest\<rparr>;
              s1 = s\<lparr>calls := calls s @ [KF_SetNotErase currentKF]\<rparr>;
              loop0 = \<lparr>matchedKF = garbage, Scw = Sim3_default G, matchedPoints = [],
                       loopMapPoints = []\<rparr>
          in case Detect E G fuel currentKF loop0 (to_int (lastLoopKFId lc1)) d s1 of
               None \<Rightarrow> None
             | Some (found, loop, d2, s2) \<Rightarrow>
                 (let s3 = s2\<lparr>calls := calls s2 @ [DB_add currentKF]\<rparr>
                  in if found
                     then (case Correct C G lmStops (fixScale d2) currentKF loop s3 of
                             None \<Rightarrow> None
                           | Some s4 \<Rightarrow>
                               Some (lc1\<lparr>lastLoopKFId := kf_id (kfs (world s4) currentKF)\<rparr>, d2, s4))
                     else Some (lc1, d2, s3\<lparr>calls := calls s3 @ [KF_SetErase currentKF]\<rparr>))))"

text \<open>One turn of the \<^verbatim>\<open>while\<close> (lines 723-763); the boolean is \<^verbatim>\<open>CheckFinish()\<close>.\<close>

definition Run_turn ::
  "('sim, 'solver) collaborators \<Rightarrow> ('pose, 'sim, 'pt) corrector_collaborators \<Rightarrow>
   ('pose, 'sim, 'rot, 'pt, 'sc) geom \<Rightarrow> bool \<Rightarrow> nat \<Rightarrow> kfptr \<Rightarrow>
   LoopClosingImpl \<times> LoopDetector \<times> ('pose, 'pt) sys \<Rightarrow>
   (bool \<times> LoopClosingImpl \<times> LoopDetector \<times> ('pose, 'pt) sys) option"
where
  "Run_turn E C G lmStops fuel garbage st =
     (case process_keyframe E C G lmStops fuel garbage st of
        None \<Rightarrow> None
      | Some (lc, d, s) \<Rightarrow>
          (let lc1 = ResetIfRequested lc
           in Some (CheckFinish lc1, lc1, d, s)))"

text \<open>
  \<open>no_SetErase_since cs cs'\<close>: the recorded calls \<open>cs'\<close> continue \<open>cs\<close>, and no call made
  since \<open>cs\<close> is a \<^verbatim>\<open>SetErase\<close>.
\<close>

definition no_SetErase_since :: "event list \<Rightarrow> event list \<Rightarrow> bool" where
  "no_SetErase_since cs cs' = (\<exists>evs. cs' = cs @ evs \<and> (\<forall>k. KF_SetErase k \<notin> set evs))"

subsection \<open>RequestReset against the main loop (lines 775-791 and 821-830)\<close>

text \<open>
  \<^verbatim>\<open>RequestReset\<close> runs in the thread of its caller: it sets the flag under the reset
  mutex, then polls the flag under that mutex, sleeping between polls, and returns once
  it reads false. The caller is before the call, between two polls, or back.
\<close>

datatype reset_pc = NotCalled | Waiting | Returned

text \<open>
  \<^verbatim>\<open>ResetIfRequested\<close> runs in the main loop's thread and holds \<^verbatim>\<open>mutexReset_\<close>, not
  \<^verbatim>\<open>mutexLoopQueue_\<close>, while it writes. Having found the flag set, the main loop is before
  \<^verbatim>\<open>keyFrameQueue_.clear()\<close>, before \<^verbatim>\<open>lastLoopKFId_ = 0\<close> or before
  \<^verbatim>\<open>resetRequested_ = false\<close>; otherwise it is elsewhere in \<^verbatim>\<open>Run\<close>, without the mutex.
\<close>

datatype main_pc = Elsewhere | Before_clear | Before_lastLoopKFId | Before_resetRequested

record loop_closing_threads =
  closer :: LoopClosingImpl
  main :: main_pc
  reset_caller :: reset_pc

text \<open>
  The steps the threads take on the members of \<^verbatim>\<open>LoopClosingImpl\<close>. Outside
  \<^verbatim>\<open>ResetIfRequested\<close> the main loop pops the front of the queue (lines 730-733) or stores
  the current keyframe's identifier after a correction (line 749); here it may take these
  steps in any order, which covers the order of the code. \<open>Main_ResetIfRequested\<close> is the
  next step of \<^verbatim>\<open>ResetIfRequested\<close> (line 757): taking the mutex and testing the flag, then
  each of the three writes. The local mapper inserts keyframes under \<^verbatim>\<open>mutexLoopQueue_\<close>,
  which \<^verbatim>\<open>ResetIfRequested\<close> does not take, so it can insert between these writes. The
  caller of \<^verbatim>\<open>RequestReset\<close> needs \<^verbatim>\<open>mutexReset_\<close> for each of its steps.
\<close>

datatype thread_action =
    Main_pop_front
  | Main_loop_closed frameid_t
  | Main_ResetIfRequested
  | LocalMapper_InsertKeyFrame kfptr frameid_t
  | Caller_RequestReset_set
  | Caller_RequestReset_poll

text \<open>\<open>None\<close>: the thread is not at a point where it can take the step, or the mutex is taken.\<close>

fun thread_step :: "thread_action \<Rightarrow> loop_closing_threads \<Rightarrow> loop_closing_threads option" where
  "thread_step Main_pop_front t =
     (if main t = Elsewhere
      then (case keyFrameQueue (closer t) of
              [] \<Rightarrow> None
            | currentKF # rest \<Rightarrow> Some (t\<lparr>closer := (closer t)\<lparr>keyFrameQueue := rest\<rparr>\<rparr>))
      else None)"
| "thread_step (Main_loop_closed currentId) t =
     (if main t = Elsewhere
      then Some (t\<lparr>closer := (closer t)\<lparr>lastLoopKFId := currentId\<rparr>\<rparr>)
      else None)"
| "thread_step Main_ResetIfRequested t =
     (case main t of
        Elsewhere \<Rightarrow> Some (if resetRequested (closer t) then t\<lparr>main := Before_clear\<rparr> else t)
      | Before_clear \<Rightarrow>
          Some (t\<lparr>closer := (closer t)\<lparr>keyFrameQueue := []\<rparr>, main := Before_lastLoopKFId\<rparr>)
      | Before_lastLoopKFId \<Rightarrow>
          Some (t\<lparr>closer := (closer t)\<lparr>lastLoopKFId := 0\<rparr>, main := Before_resetRequested\<rparr>)
      | Before_resetRequested \<Rightarrow>
          Some (t\<lparr>closer := (closer t)\<lparr>resetRequested := False\<rparr>, main := Elsewhere\<rparr>))"
| "thread_step (LocalMapper_InsertKeyFrame keyframe keyframe_id) t =
     Some (t\<lparr>closer := InsertKeyFrame keyframe keyframe_id (closer t)\<rparr>)"
| "thread_step Caller_RequestReset_set t =
     (if reset_caller t = NotCalled \<and> main t = Elsewhere
      then Some (t\<lparr>closer := (closer t)\<lparr>resetRequested := True\<rparr>, reset_caller := Waiting\<rparr>)
      else None)"
| "thread_step Caller_RequestReset_poll t =
     (if reset_caller t = Waiting \<and> main t = Elsewhere
      then (if \<not> resetRequested (closer t) then Some (t\<lparr>reset_caller := Returned\<rparr>) else Some t)
      else None)"

text \<open>An interleaving of the threads: the steps in the order they are taken.\<close>

fun thread_run :: "thread_action list \<Rightarrow> loop_closing_threads \<Rightarrow> loop_closing_threads option" where
  "thread_run [] t = Some t"
| "thread_run (a # as) t = (case thread_step a t of None \<Rightarrow> None | Some t' \<Rightarrow> thread_run as t')"


subsection \<open>GlobalBA: the task, its caller and its workers as threads\<close>

text \<open>
  \<^verbatim>\<open>_Run\<close>, lines 376-452: the block \<^verbatim>\<open>if (!stop_) { ... }\<close> that updates the map, entered
  with \<^verbatim>\<open>mutexGBA_\<close> held once the index has been found current. It leaves the members of
  the task as they are; \<open>None\<close> is a worker that never leaves it.
\<close>

definition GlobalBA_Run_update ::
  "('pose, 'sim, 'rot, 'pt, 'sc) geom \<Rightarrow> bool \<Rightarrow> nat \<Rightarrow> frameid_t \<Rightarrow>
   ('pose, 'pt) sys \<Rightarrow> ('pose, 'pt) sys option"
where
  "GlobalBA_Run_update G lmStops fuel loopKFId s =
     (if \<not> stop (GBA s)
      then (let s1 = s\<lparr>calls := calls s @ [LM_RequestStop]\<rparr>
            in if \<not> lmStops then None
               else (case correct_keyframes G loopKFId fuel (keyFrameOrigins (world s1)) (kfs (world s1)) of
                       None \<Rightarrow> None
                     | Some ks \<Rightarrow>
                         (let w2 = (world s1)\<lparr>kfs := ks\<rparr>;
                              w3 = w2\<lparr>mps := correct_mappoints G loopKFId (kfs w2) (allMapPoints w2) (mps w2)\<rparr>;
                              w4 = InformNewBigChange w3
                          in Some (s1\<lparr>world := w4, calls := calls s1 @ [LM_Release]\<rparr>))))
      else Some s)"

text \<open>
  A thread that \<^verbatim>\<open>Run\<close> has created executes \<^verbatim>\<open>_Run(loopKFId)\<close>. It is in one of these
  places: created, before \<^verbatim>\<open>const int idx = fullBAIdx_\<close> (line 365); with \<open>idx\<close> read, in
  \<^verbatim>\<open>Optimizer::GlobalBundleAdjustemnt\<close>; back from it, before the block that takes
  \<^verbatim>\<open>mutexGBA_\<close> (line 372); in that block with the mutex, before \<^verbatim>\<open>finished_ = true\<close>
  (line 454) or before \<^verbatim>\<open>running_ = false\<close> (line 455); or returned.
\<close>

datatype worker =
    Created frameid_t
  | Adjusting "32 word" frameid_t
  | Adjusted "32 word" frameid_t
  | Before_finished
  | Before_running
  | Exited

text \<open>
  \<^verbatim>\<open>Run\<close> and \<^verbatim>\<open>Stop\<close> are called by one thread, the loop closer's (from \<^verbatim>\<open>Correct\<close>), one
  call after the other. \<^verbatim>\<open>Run\<close> does not take \<^verbatim>\<open>mutexGBA_\<close>, so the caller is outside
  a call, or in \<^verbatim>\<open>Run(loopKFId)\<close> with its first \<open>n\<close> statements done.
\<close>

datatype caller_pc = Outside | In_Run nat frameid_t

record ('pose, 'pt) gba_threads =
  shared :: "('pose, 'pt) sys"
  caller :: caller_pc
  workers :: "worker list"

definition gba_threads_init :: "('pose, 'pt) sys \<Rightarrow> ('pose, 'pt) gba_threads" where
  "gba_threads_init s = \<lparr>shared = s, caller = Outside, workers = []\<rparr>"

text \<open>\<^verbatim>\<open>mutexGBA_\<close> is held by a worker inside its block.\<close>

definition mutexGBA_held :: "('pose, 'pt) gba_threads \<Rightarrow> bool" where
  "mutexGBA_held t = (Before_finished \<in> set (workers t) \<or> Before_running \<in> set (workers t))"

text \<open>
  The steps of the threads. The caller enters \<^verbatim>\<open>Run\<close> with \<^verbatim>\<open>running_ = true\<close>, executes
  the next statement of \<^verbatim>\<open>Run\<close> (\<^verbatim>\<open>finished_ = false\<close>, \<^verbatim>\<open>stop_ = false\<close>, then
  \<^verbatim>\<open>thread_.Reset\<close>, which creates the worker), or calls \<^verbatim>\<open>Stop\<close>, which is one step since
  it holds \<^verbatim>\<open>mutexGBA_\<close> throughout. Worker number \<open>i\<close> takes its next step.
\<close>

datatype gba_action = Run_enter frameid_t | Run_statement | Stop_call | Worker nat

text \<open>
  One step. A thread that cannot take its step where it is, or waits for the mutex,
  leaves the state as it is. \<open>ba\<close> is \<^verbatim>\<open>Optimizer::GlobalBundleAdjustemnt\<close>, which is given
  the map, the identifier and a pointer to \<^verbatim>\<open>stop_\<close>, and is taken as one step on the
  map. \<open>None\<close>: the worker never leaves the update of the map.
\<close>

definition worker_step ::
  "('pose, 'sim, 'rot, 'pt, 'sc) geom \<Rightarrow> bool \<Rightarrow> nat \<Rightarrow>
   (frameid_t \<Rightarrow> bool \<Rightarrow> ('pose, 'pt) world \<Rightarrow> ('pose, 'pt) world) \<Rightarrow> nat \<Rightarrow>
   ('pose, 'pt) gba_threads \<Rightarrow> ('pose, 'pt) gba_threads option"
where
  "worker_step G lmStops fuel ba i t =
     (let s = shared t
      in case workers t ! i of
           Created loopKFId \<Rightarrow>
             Some (t\<lparr>workers := (workers t)[i := Adjusting (fullBAIdx (GBA s)) loopKFId]\<rparr>)
         | Adjusting idx loopKFId \<Rightarrow>
             Some (t\<lparr>shared := s\<lparr>world := ba loopKFId (stop (GBA s)) (world s)\<rparr>,
                     workers := (workers t)[i := Adjusted idx loopKFId]\<rparr>)
         | Adjusted idx loopKFId \<Rightarrow>
             if mutexGBA_held t then Some t
             else if idx \<noteq> fullBAIdx (GBA s)
             then Some (t\<lparr>workers := (workers t)[i := Exited]\<rparr>)
             else (case GlobalBA_Run_update G lmStops fuel loopKFId s of
                     None \<Rightarrow> None
                   | Some s' \<Rightarrow> Some (t\<lparr>shared := s', workers := (workers t)[i := Before_finished]\<rparr>))
         | Before_finished \<Rightarrow>
             Some (t\<lparr>shared := s\<lparr>GBA := (GBA s)\<lparr>finished := True\<rparr>\<rparr>,
                     workers := (workers t)[i := Before_running]\<rparr>)
         | Before_running \<Rightarrow>
             Some (t\<lparr>shared := s\<lparr>GBA := (GBA s)\<lparr>running := False\<rparr>\<rparr>,
                     workers := (workers t)[i := Exited]\<rparr>)
         | Exited \<Rightarrow> Some t)"

fun gba_step ::
  "('pose, 'sim, 'rot, 'pt, 'sc) geom \<Rightarrow> bool \<Rightarrow> nat \<Rightarrow>
   (frameid_t \<Rightarrow> bool \<Rightarrow> ('pose, 'pt) world \<Rightarrow> ('pose, 'pt) world) \<Rightarrow> gba_action \<Rightarrow>
   ('pose, 'pt) gba_threads \<Rightarrow> ('pose, 'pt) gba_threads option"
where
  "gba_step G lmStops fuel ba (Run_enter loopKFId) t =
     (if caller t = Outside
      then Some (t\<lparr>shared := (shared t)\<lparr>GBA := (GBA (shared t))\<lparr>running := True\<rparr>\<rparr>,
                   caller := In_Run 1 loopKFId\<rparr>)
      else Some t)"
| "gba_step G lmStops fuel ba Run_statement t =
     (case caller t of
        Outside \<Rightarrow> Some t
      | In_Run n loopKFId \<Rightarrow>
          if n = 1
          then Some (t\<lparr>shared := (shared t)\<lparr>GBA := (GBA (shared t))\<lparr>finished := False\<rparr>\<rparr>,
                       caller := In_Run 2 loopKFId\<rparr>)
          else if n = 2
          then Some (t\<lparr>shared := (shared t)\<lparr>GBA := (GBA (shared t))\<lparr>stop := False\<rparr>\<rparr>,
                       caller := In_Run 3 loopKFId\<rparr>)
          else Some (t\<lparr>shared := (shared t)\<lparr>GBA := (GBA (shared t))\<lparr>thread := Some loopKFId\<rparr>\<rparr>,
                       caller := Outside,
                       workers := workers t @ [Created loopKFId]\<rparr>))"
| "gba_step G lmStops fuel ba Stop_call t =
     (if caller t = Outside \<and> \<not> mutexGBA_held t
      then Some (t\<lparr>shared := GlobalBA_Stop (shared t)\<rparr>)
      else Some t)"
| "gba_step G lmStops fuel ba (Worker i) t =
     (if i < length (workers t) then worker_step G lmStops fuel ba i t else Some t)"

text \<open>An interleaving: the steps in the order they are taken.\<close>

fun gba_run ::
  "('pose, 'sim, 'rot, 'pt, 'sc) geom \<Rightarrow> bool \<Rightarrow> nat \<Rightarrow>
   (frameid_t \<Rightarrow> bool \<Rightarrow> ('pose, 'pt) world \<Rightarrow> ('pose, 'pt) world) \<Rightarrow> gba_action list \<Rightarrow>
   ('pose, 'pt) gba_threads \<Rightarrow> ('pose, 'pt) gba_threads option"
where
  "gba_run G lmStops fuel ba [] t = Some t"
| "gba_run G lmStops fuel ba (a # as) t =
     (case gba_step G lmStops fuel ba a t of
        None \<Rightarrow> None
      | Some t' \<Rightarrow> gba_run G lmStops fuel ba as t')"

text \<open>
  \<open>has_read\<close>: the worker is past line 365. \<open>Stop_calls\<close>: how many steps of an
  interleaving are calls of \<^verbatim>\<open>Stop\<close>.
\<close>

definition has_read :: "worker \<Rightarrow> bool" where
  "has_read w = (case w of Created loopKFId \<Rightarrow> False | _ \<Rightarrow> True)"

definition is_Run_enter :: "gba_action \<Rightarrow> bool" where
  "is_Run_enter a = (case a of Run_enter loopKFId \<Rightarrow> True | _ \<Rightarrow> False)"

definition Stop_calls :: "gba_action list \<Rightarrow> nat" where
  "Stop_calls as = length (filter (\<lambda>a. a = Stop_call) as)"

text \<open>
  \<open>read_within m n\<close>: the index the worker has read, if it still needs it, is what
  \<^verbatim>\<open>fullBAIdx_ = n\<close> was at most \<open>m\<close> increments ago. \<open>stale_within m n\<close>: the worker has read
  its index between 1 and \<open>m\<close> increments ago and is not in its block, or it has returned.
\<close>

definition read_within :: "nat \<Rightarrow> 32 word \<Rightarrow> worker \<Rightarrow> bool" where
  "read_within m n w =
     (case w of
        Adjusting idx loopKFId \<Rightarrow> (\<exists>k\<le>m. n = idx + of_nat k)
      | Adjusted idx loopKFId \<Rightarrow> (\<exists>k\<le>m. n = idx + of_nat k)
      | _ \<Rightarrow> True)"

definition stale_within :: "nat \<Rightarrow> 32 word \<Rightarrow> worker \<Rightarrow> bool" where
  "stale_within m n w =
     (case w of
        Adjusting idx loopKFId \<Rightarrow> (\<exists>k\<le>m. 1 \<le> k \<and> n = idx + of_nat k)
      | Adjusted idx loopKFId \<Rightarrow> (\<exists>k\<le>m. 1 \<le> k \<and> n = idx + of_nat k)
      | Exited \<Rightarrow> True
      | _ \<Rightarrow> False)"

text \<open>
  A covisibility graph with two keyframes, \<open>1\<close> and \<open>2\<close>, connected to each other:
  the group of candidate \<open>1\<close> is \<open>{1, 2}\<close>.
\<close>

definition conn_AB :: "kfptr \<Rightarrow> kfptr set" where
  "conn_AB k = (if k = 1 then {2} else if k = 2 then {1} else {})"

text \<open>
  A geometry on the rational line, to run the definitions on: a rotation is \<open>1\<close> or
  \<open>-1\<close>, a pose \<open>(r, t)\<close> maps \<open>x\<close> to \<open>r * x + t\<close>, and a similarity \<open>(r, t, s)\<close>
  maps \<open>x\<close> to \<open>s * r * x + t\<close>.
\<close>

definition G_line :: "(rat \<times> rat, rat \<times> rat \<times> rat, rat, rat, rat) geom" where
  "G_line =
     \<lparr>pose_R = fst,
      pose_t = snd,
      pose_Inverse = (\<lambda>(r, t). (r, - (r * t))),
      pose_mul = (\<lambda>(r1, t1) (r2, t2). (r1 * r2, r1 * t2 + t1)),
      CameraPose_of = Pair,
      rot_mul_pt = (\<lambda>r x. r * x),
      pt_add = (\<lambda>x t. x + t),
      sc_mul_pt = (\<lambda>s t. s * t),
      sc_recip = (\<lambda>s. 1 / s),
      Sim3_of_pose = (\<lambda>(r, t). (r, t, 1)),
      Sim3_default = (1, 0, 1),
      sim_mul = (\<lambda>(r1, t1, s1) (r2, t2, s2). (r1 * r2, s1 * r1 * t2 + t1, s1 * s2)),
      sim_Inverse = (\<lambda>(r, t, s). (r, - (r * t) / s, 1 / s)),
      sim_Map = (\<lambda>(r, t, s) x. s * r * x + t),
      sim_R = (\<lambda>(r, t, s). r),
      sim_t = (\<lambda>(r, t, s). t),
      sim_Scale = (\<lambda>(r, t, s). s)\<rparr>"

definition kf_example :: "(rat \<times> rat) KeyFrame" where
  "kf_example =
     \<lparr>kf_id = 0, kf_isBad = False, pose = (1, 0), TcwGBA = (1, 0), TcwBefGBA = (1, 0),
      kf_BAGlobalForKF = 0, covisible = [], connected = {}, children = [], mapPointMatches = []\<rparr>"

definition mp_example :: "rat MapPoint" where
  "mp_example =
     \<lparr>mp_isBad = False, worldPos = 0, posGBA = 0, mp_BAGlobalForKF = 0, loopPointForKF = 0,
      correctedByKF = 0, correctedReference = 0, referenceKF = 0\<rparr>"

text \<open>
  A map after the global bundle adjustment for loop keyframe 20 has returned. Keyframe 1
  is the origin and was optimised (new pose \<open>(1, 3)\<close>); its child 2 was inserted while the
  optimisation ran; keyframe 5 is bad, outside the spanning tree and unstamped. Map
  point 10 was optimised, 11 refers to keyframe 2, 12 refers to keyframe 5, 13 is bad.
\<close>

definition sys_after_BA :: "(rat \<times> rat, rat) sys" where
  "sys_after_BA =
     \<lparr>world = \<lparr>kfs = (\<lambda>k. kf_example)
        (1 := kf_example\<lparr>kf_id := 1, pose := (1, 1), TcwGBA := (1, 3), kf_BAGlobalForKF := 20,
                         children := [2]\<rparr>,
         2 := kf_example\<lparr>kf_id := 2, pose := (1, 2)\<rparr>,
         5 := kf_example\<lparr>kf_id := 5, kf_isBad := True, pose := (1, 9)\<rparr>),
      mps = (\<lambda>p. mp_example)
        (10 := mp_example\<lparr>worldPos := 4, posGBA := 6, mp_BAGlobalForKF := 20, referenceKF := 1\<rparr>,
         11 := mp_example\<lparr>worldPos := 7, referenceKF := 2\<rparr>,
         12 := mp_example\<lparr>worldPos := 8, referenceKF := 5\<rparr>,
         13 := mp_example\<lparr>mp_isBad := True, worldPos := 9, posGBA := 1, mp_BAGlobalForKF := 20,
                           referenceKF := 1\<rparr>),
      keyFrameOrigins = [1],
      allMapPoints = [10, 11, 12, 13],
      bigChangeIdx = 1\<rparr>,
      GBA = \<lparr>running = True, finished = False, stop = False, fullBAIdx = 0, thread = Some 20\<rparr>,
      calls = []\<rparr>"

text \<open>
  The same map before \<^verbatim>\<open>Run\<close> is called, the task as it is constructed, and a bundle
  adjustment that finds its results written already.
\<close>

definition sys_before_Run :: "(rat \<times> rat, rat) sys" where
  "sys_before_Run = sys_after_BA\<lparr>GBA := GlobalBA_init\<rparr>"

definition ba_done :: "frameid_t \<Rightarrow> bool \<Rightarrow> (rat \<times> rat, rat) world \<Rightarrow> (rat \<times> rat, rat) world" where
  "ba_done loopKFId stopFlag w = w"

text \<open>
  \<^verbatim>\<open>Run(20)\<close> as the caller's four steps. In the first interleaving the worker reads its
  index, \<^verbatim>\<open>Stop\<close> comes while the bundle adjustment runs, \<^verbatim>\<open>Run(30)\<close> follows and the
  first worker comes back. In the other two \<^verbatim>\<open>Stop\<close> comes before the worker has read
  its index: followed by \<^verbatim>\<open>Run(30)\<close> and then the first worker's steps, or by the worker's
  steps alone.
\<close>

definition Run_20 :: "gba_action list" where
  "Run_20 = [Run_enter 20, Run_statement, Run_statement, Run_statement]"

definition Run_30 :: "gba_action list" where
  "Run_30 = [Run_enter 30, Run_statement, Run_statement, Run_statement]"

definition stop_after_read :: "gba_action list" where
  "stop_after_read = [Worker 0, Stop_call] @ Run_30 @ [Worker 0, Worker 0]"


definition stop_before_read :: "gba_action list" where
  "stop_before_read = [Stop_call, Worker 0, Worker 0, Worker 0, Worker 0, Worker 0]"

text \<open>
  A revisit. Keyframes 3 and 4 are old and covisible; keyframe 30 is the current one, with
  40 feature slots, and 29 is its covisible neighbour; keyframe 40 comes later. Map points 100, 101, 102 are seen
  from the old keyframes, 200, 201 and the bad 202 from the new ones. The detector has
  seen the group \<open>{3, 4}\<close> on the last three keyframes.
\<close>

definition sys_revisit :: "(rat \<times> rat, rat) sys" where
  "sys_revisit =
     \<lparr>world = \<lparr>kfs = (\<lambda>k. kf_example)
        (3 := kf_example\<lparr>kf_id := 3, pose := (1, 0), covisible := [4], connected := {4},
                         mapPointMatches := [Some 100, None, Some 101]\<rparr>,
         4 := kf_example\<lparr>kf_id := 4, pose := (1, - 1), covisible := [3], connected := {3},
                         mapPointMatches := [Some 101, Some 102]\<rparr>,
         29 := kf_example\<lparr>kf_id := 29, pose := (1, - 26), covisible := [30], connected := {30},
                          mapPointMatches := [Some 200, Some 201, Some 202]\<rparr>,
         30 := kf_example\<lparr>kf_id := 30, pose := (1, - 27), covisible := [29], connected := {29},
                          mapPointMatches := Some 200 # replicate 39 None\<rparr>,
         40 := kf_example\<lparr>kf_id := 40, pose := (1, - 37), mapPointMatches := replicate 40 None\<rparr>),
      mps = (\<lambda>p. mp_example)
        (100 := mp_example\<lparr>worldPos := 1, referenceKF := 3\<rparr>,
         101 := mp_example\<lparr>worldPos := 2, referenceKF := 3\<rparr>,
         102 := mp_example\<lparr>worldPos := 3, referenceKF := 4\<rparr>,
         200 := mp_example\<lparr>worldPos := 28, referenceKF := 29\<rparr>,
         201 := mp_example\<lparr>worldPos := 29, referenceKF := 29\<rparr>,
         202 := mp_example\<lparr>mp_isBad := True, worldPos := 30, referenceKF := 29\<rparr>),
      keyFrameOrigins = [3],
      allMapPoints = [100, 101, 102, 200, 201, 202],
      bigChangeIdx = 0\<rparr>,
      GBA = GlobalBA_init,
      calls = []\<rparr>"

definition detector_revisit :: LoopDetector where
  "detector_revisit = \<lparr>prevConsistentGroups = [({3, 4}, 2)], fixScale = True\<rparr>"

text \<open>
  Collaborators for the revisit. The database proposes keyframes 3 and 4. A solver is a
  pair of its number of calls and its candidate; the solver of candidate 3 finds the
  transform \<open>(1, - 2, 1)\<close> on its second call, and every solver gives up after three.
  The projection search fills all 40 slots.
\<close>

definition collaborators_revisit :: "(rat \<times> rat \<times> rat, nat \<times> kfptr) collaborators" where
  "collaborators_revisit =
     \<lparr>voc_score = (\<lambda>k k'. 1 / 2),
      DetectLoopCandidates = (\<lambda>k minScore. [3, 4]),
      SearchByBoW = (\<lambda>k k'. (25, Some 100 # Some 101 # Some 102 # replicate 37 None)),
      Sim3Solver_new = (\<lambda>k k' vm fs. (0, k')),
      SetRansacParameters = (\<lambda>prob minInliers maxIts sv. sv),
      iterate = (\<lambda>n (c, k'). ((1 \<le> c \<and> k' = 3, (1, - 2, 1), replicate 40 True), (c + 1, k'))),
      terminate = (\<lambda>(c, k'). 3 \<le> c),
      SearchBySim3 = (\<lambda>k k' matches Scm r. matches),
      OptimizeSim3 = (\<lambda>k k' matches Scm chi2 fs. (25, matches, Scm)),
      SearchByProjection = (\<lambda>k S points matches r. replicate 40 (Some 100))\<rparr>"

text \<open>The same collaborators, with a projection search that finds nothing new.\<close>

definition collaborators_few_matches :: "(rat \<times> rat \<times> rat, nat \<times> kfptr) collaborators" where
  "collaborators_few_matches =
     collaborators_revisit\<lparr>SearchByProjection := (\<lambda>k S points matches r. matches)\<rparr>"

text \<open>
  Corrector collaborators that find nothing to fuse and leave the map as it is: the
  covisibility links after a refresh are those of the revisit.
\<close>

definition links_revisit :: "kfptr \<Rightarrow> kfptr list \<times> kfptr set \<times> kfptr list" where
  "links_revisit k =
     (if k = 3 then ([4], {4}, [])
      else if k = 4 then ([3], {3}, [])
      else if k = 29 then ([30], {30}, [])
      else if k = 30 then ([29], {29}, [])
      else ([], {}, []))"

definition corrector_collaborators_idle ::
  "(rat \<times> rat, rat \<times> rat \<times> rat, rat) corrector_collaborators"
where
  "corrector_collaborators_idle =
     \<lparr>UpdateConnections = (\<lambda>k w. links_revisit),
      Replace = (\<lambda>p q w. w),
      Fuse = (\<lambda>k S points r w. (replicate (length points) None, w)),
      OptimizeEssentialGraph = (\<lambda>loopKF curKF nonCorrected corrected links fs w. w)\<rparr>"

definition loop_garbage :: "(rat \<times> rat \<times> rat) Loop" where
  "loop_garbage = \<lparr>matchedKF = 0, Scw = (1, 0, 1), matchedPoints = [], loopMapPoints = []\<rparr>"

text \<open>
  A stream of keyframes 11, 12, 13, 14 (numbered as their addresses) for each of which
  the database proposes keyframe 1, connected to keyframe 2, to a fresh detector.
\<close>

definition sys_stream :: "(rat \<times> rat, rat) sys" where
  "sys_stream =
     sys_revisit\<lparr>world := (world sys_revisit)
       \<lparr>kfs := (\<lambda>k. kf_example\<lparr>kf_id := int k, connected := conn_AB k\<rparr>)\<rparr>\<rparr>"

definition collaborators_stream :: "(rat \<times> rat \<times> rat, nat \<times> kfptr) collaborators" where
  "collaborators_stream = collaborators_revisit\<lparr>DetectLoopCandidates := (\<lambda>k minScore. [1])\<rparr>"

definition detector_fresh :: LoopDetector where
  "detector_fresh = \<lparr>prevConsistentGroups = [], fixScale = True\<rparr>"

definition closer_revisit :: LoopClosingImpl where
  "closer_revisit = LoopClosingImpl_init\<lparr>lc_finished := False, keyFrameQueue := [30]\<rparr>"

text \<open>
  Two turns of the main loop on the queue \<open>[30, 40]\<close>: the first accepts the loop between
  keyframes 30 and 3; in the second the database proposes 3 and 4 again for keyframe 40
  and the projection search finds nothing new.
\<close>

definition after_first_turn ::
  "LoopClosingImpl \<times> LoopDetector \<times> (rat \<times> rat, rat) sys"
where
  "after_first_turn =
     the (process_keyframe collaborators_revisit corrector_collaborators_idle G_line True 2 0
            (closer_revisit\<lparr>keyFrameQueue := [30, 40]\<rparr>, detector_revisit, sys_revisit))"

definition after_second_turn ::
  "LoopClosingImpl \<times> LoopDetector \<times> (rat \<times> rat, rat) sys"
where
  "after_second_turn =
     the (process_keyframe collaborators_few_matches corrector_collaborators_idle G_line True 2 0
            after_first_turn)"




text \<open>
  The correction of the revisit on the map alone: the loop that the detector returns,
  the map after the first refresh of the links, after the loop over the corrected
  keyframes, and after the last step on the map.
\<close>

definition loop_revisit :: "(rat \<times> rat \<times> rat) Loop" where
  "loop_revisit =
     \<lparr>matchedKF = 3, Scw = (1, - 2, 1), matchedPoints = replicate 40 (Some 100),
      loopMapPoints = [101, 102, 100]\<rparr>"

definition revisit_refreshed :: "(rat \<times> rat, rat) world \<times> event list" where
  "revisit_refreshed = call_UpdateConnections corrector_collaborators_idle 30 (world sys_revisit, [])"


definition revisit_corrected :: "(rat \<times> rat, rat) world \<times> event list" where
  "revisit_corrected =
     Correct_map corrector_collaborators_idle G_line True 30 loop_revisit (world sys_revisit, [])"

section \<open>Properties\<close>

subsection \<open>Covisibility consistency\<close>

lemma fold_visit_group:
  "fold (visit_group prev c g) ids (found, acc) = (found', acc') \<Longrightarrow>
   candidateKFs acc' = candidateKFs acc @
       (if \<not> found \<and> (\<exists>iG\<in>set ids. sint (snd (prev ! iG) + 1) \<ge> sint minConsistency) then [c] else []) \<and>
   found' = (found \<or> (\<exists>iG\<in>set ids. sint (snd (prev ! iG) + 1) \<ge> sint minConsistency))"
proof (induction ids arbitrary: found acc)
  case Nil
  then show ?case by simp
next
  case (Cons iG ids)
  obtain f1 a1 where v: "visit_group prev c g iG (found, acc) = (f1, a1)"
    by (cases "visit_group prev c g iG (found, acc)")
  have a1: "candidateKFs a1 = candidateKFs acc @
       (if \<not> found \<and> sint (snd (prev ! iG) + 1) \<ge> sint minConsistency then [c] else [])"
    and f1: "f1 = (found \<or> sint (snd (prev ! iG) + 1) \<ge> sint minConsistency)"
    using v by (auto simp: visit_group_def Let_def split: if_splits)
  from Cons.prems v have "fold (visit_group prev c g) ids (f1, a1) = (found', acc')" by simp
  from Cons.IH[OF this] a1 f1 show ?case by auto
qed

lemma check_candidate_candidateKFs:
  "candidateKFs (check_candidate conn prev c acc) = candidateKFs acc @
     (if \<exists>(g, n)\<in>set prev. IsConsistent g (insert c (conn c)) \<and> sint (n + 1) \<ge> sint minConsistency
      then [c] else [])"
proof -
  let ?g = "insert c (conn c)"
  let ?ids = "consistentGroupsIds prev ?g"
  obtain f1 a1 where f: "fold (visit_group prev c ?g) ?ids (False, acc) = (f1, a1)"
    by (cases "fold (visit_group prev c ?g) ?ids (False, acc)")
  have ex: "(\<exists>iG\<in>set ?ids. sint (snd (prev ! iG) + 1) \<ge> sint minConsistency) =
        (\<exists>(g, n)\<in>set prev. IsConsistent g ?g \<and> sint (n + 1) \<ge> sint minConsistency)"
    by (fastforce simp: consistentGroupsIds_def in_set_conv_nth)
  from f have "snd (fold (visit_group prev c ?g) ?ids (False, acc)) = a1" by simp
  then have "candidateKFs (check_candidate conn prev c acc) = candidateKFs a1"
    by (auto simp add: check_candidate_def Let_def)
  with fold_visit_group[OF f] ex show ?thesis by simp
qed

lemma fold_check_candidate_candidateKFs:
  "candidateKFs (fold (check_candidate conn prev) cs acc) = candidateKFs acc @
     filter (\<lambda>c. \<exists>(g, n)\<in>set prev. IsConsistent g (insert c (conn c)) \<and> sint (n + 1) \<ge> sint minConsistency) cs"
  by (induction cs arbitrary: acc) (simp_all add: check_candidate_candidateKFs)

lemma fold_visit_group_groups:
  "set (currConsistentGroups (snd (fold (visit_group prev c g) ids fa))) \<subseteq>
     set (currConsistentGroups (snd fa)) \<union> {(g, snd (prev ! iG) + 1) | iG. iG \<in> set ids}"
proof (induction ids arbitrary: fa)
  case Nil
  then show ?case by simp
next
  case (Cons iG ids)
  have "set (currConsistentGroups (snd (visit_group prev c g iG fa))) \<subseteq>
     set (currConsistentGroups (snd fa)) \<union> {(g, snd (prev ! iG) + 1)}"
    by (cases fa) (auto simp: visit_group_def Let_def split: if_splits)
  with Cons.IH[of "visit_group prev c g iG fa"] show ?case by auto
qed

lemma check_candidate_groups:
  "set (currConsistentGroups (check_candidate conn prev c acc)) \<subseteq>
     set (currConsistentGroups acc) \<union>
     {(insert c (conn c), 0) | c'. c' = c \<and> \<not> (\<exists>(g, n)\<in>set prev. IsConsistent g (insert c (conn c)))} \<union>
     {(insert c (conn c), n + 1) | g n. (g, n) \<in> set prev \<and> IsConsistent g (insert c (conn c))}"
proof -
  let ?g = "insert c (conn c)"
  let ?ids = "consistentGroupsIds prev ?g"
  have ids: "iG \<in> set ?ids \<Longrightarrow> (fst (prev ! iG), snd (prev ! iG)) \<in> set prev \<and>
        IsConsistent (fst (prev ! iG)) ?g" for iG
    by (auto simp: consistentGroupsIds_def)
  have empty: "\<not> (\<exists>(g, n)\<in>set prev. IsConsistent g ?g)" if e: "?ids = []"
  proof
    assume "\<exists>(g, n)\<in>set prev. IsConsistent g ?g"
    then obtain g n where gn: "(g, n) \<in> set prev" "IsConsistent g ?g" by auto
    then obtain i where i: "i < length prev" "prev ! i = (g, n)" by (auto simp: in_set_conv_nth)
    with gn have "i \<in> set ?ids" by (simp add: consistentGroupsIds_def)
    with e show False by simp
  qed
  show ?thesis
  proof (cases "?ids = []")
    case True
    with empty show ?thesis
      by (auto simp: check_candidate_def Let_def)
  next
    case False
    have "set (currConsistentGroups (check_candidate conn prev c acc)) \<subseteq>
        set (currConsistentGroups acc) \<union> {(?g, snd (prev ! iG) + 1) | iG. iG \<in> set ?ids}"
      using False fold_visit_group_groups[of prev c ?g ?ids "(False, acc)"]
      by (simp add: check_candidate_def Let_def)
    also have "\<dots> \<subseteq> set (currConsistentGroups acc) \<union>
       {(?g, n + 1) | g n. (g, n) \<in> set prev \<and> IsConsistent g ?g}"
      using ids by fastforce
    finally show ?thesis by blast
  qed
qed

lemma fold_check_candidate_groups:
  "set (currConsistentGroups (fold (check_candidate conn prev) cs acc)) \<subseteq>
     set (currConsistentGroups acc) \<union>
     {(insert c (conn c), 0) | c. c \<in> set cs \<and>
         \<not> (\<exists>(g, n)\<in>set prev. IsConsistent g (insert c (conn c)))} \<union>
     {(insert c (conn c), n + 1) | c g n. c \<in> set cs \<and> (g, n) \<in> set prev \<and>
         IsConsistent g (insert c (conn c))}"
proof (induction cs arbitrary: acc)
  case Nil
  then show ?case by simp
next
  case (Cons c cs)
  from Cons.IH[of "check_candidate conn prev c acc"] check_candidate_groups[of conn prev c acc]
  show ?case by (simp add: subset_iff) blast
qed

lemma CheckConsistency_first:
  "CheckConsistency conn [] [c] =
     \<lparr>currConsistentGroups = [(insert c (conn c), 0)], consistentFound = [], candidateKFs = []\<rparr>"
  by (simp add: CheckConsistency_def check_candidate_def consistentGroupsIds_def)

lemma CheckConsistency_next:
  "CheckConsistency conn [(insert c (conn c), n)] [c] =
     \<lparr>currConsistentGroups = [(insert c (conn c), n + 1)], consistentFound = [True],
      candidateKFs = (if sint (n + 1) \<ge> 3 then [c] else [])\<rparr>"
  by (auto simp add: CheckConsistency_def check_candidate_def consistentGroupsIds_def
      IsConsistent_def visit_group_def minConsistency_def Let_def)

lemma fold_visit_group_grows:
  "set (currConsistentGroups (snd fa)) \<subseteq>
     set (currConsistentGroups (snd (fold (visit_group prev c g) ids fa)))"
proof (induction ids arbitrary: fa)
  case Nil
  then show ?case by simp
next
  case (Cons iG ids)
  have "set (currConsistentGroups (snd fa)) \<subseteq>
     set (currConsistentGroups (snd (visit_group prev c g iG fa)))"
    by (cases fa) (auto simp: visit_group_def Let_def)
  with Cons.IH[of "visit_group prev c g iG fa"] show ?case by auto
qed

lemma check_candidate_grows:
  "set (currConsistentGroups acc) \<subseteq> set (currConsistentGroups (check_candidate conn prev c acc))"
  using fold_visit_group_grows[of "(False, acc)" prev c "insert c (conn c)"
          "consistentGroupsIds prev (insert c (conn c))"]
  by (auto simp: check_candidate_def Let_def)

lemma check_candidate_first_seen:
  assumes "\<not> (\<exists>(g, n)\<in>set prev. IsConsistent g (insert c (conn c)))"
  shows "(insert c (conn c), 0) \<in> set (currConsistentGroups (check_candidate conn prev c acc))"
proof -
  have "\<not> IsConsistent (fst (prev ! iG)) (insert c (conn c))" if "iG < length prev" for iG
  proof -
    from that have "(fst (prev ! iG), snd (prev ! iG)) \<in> set prev" by simp
    with assms show ?thesis by blast
  qed
  then have "consistentGroupsIds prev (insert c (conn c)) = []"
    by (simp add: consistentGroupsIds_def filter_empty_conv)
  then show ?thesis
    by (simp add: check_candidate_def Let_def)
qed

lemma fold_check_candidate_grows:
  "set (currConsistentGroups acc) \<subseteq>
     set (currConsistentGroups (fold (check_candidate conn prev) cs acc))"
proof (induction cs arbitrary: acc)
  case Nil
  then show ?case by simp
next
  case (Cons c cs)
  from Cons.IH[of "check_candidate conn prev c acc"] check_candidate_grows[of acc conn prev c]
  show ?case by auto
qed

lemma fold_check_candidate_first_seen:
  assumes "c \<in> set cs" and "\<not> (\<exists>(g, n)\<in>set prev. IsConsistent g (insert c (conn c)))"
  shows "(insert c (conn c), 0) \<in> set (currConsistentGroups (fold (check_candidate conn prev) cs acc))"
  using assms(1)
proof (induction cs arbitrary: acc)
  case Nil
  then show ?case by simp
next
  case (Cons c' cs)
  show ?case
  proof (cases "c = c'")
    case True
    from check_candidate_first_seen[where prev = prev and c = c and conn = conn and acc = acc,
           OF assms(2)]
      fold_check_candidate_grows[of "check_candidate conn prev c acc" conn prev cs] True
    show ?thesis by auto
  next
    case False
    with Cons.prems have "c \<in> set cs" by simp
    from Cons.IH[OF this] show ?thesis by simp
  qed
qed

lemma CheckConsistency_candidateKFs:
  "candidateKFs (CheckConsistency conn prev cs) =
     filter (\<lambda>c. \<exists>(g, k)\<in>set prev. IsConsistent g (insert c (conn c)) \<and> sint (k + 1) \<ge> 3) cs"
  using fold_check_candidate_candidateKFs[of conn prev cs]
  by (simp add: CheckConsistency_def minConsistency_def)

lemma CheckConsistency_groups:
  "{(insert c (conn c), 0) | c. c \<in> set cs \<and>
         \<not> (\<exists>(g, k)\<in>set prev. IsConsistent g (insert c (conn c)))}
     \<subseteq> set (currConsistentGroups (CheckConsistency conn prev cs))"
  "set (currConsistentGroups (CheckConsistency conn prev cs)) \<subseteq>
     {(insert c (conn c), 0) | c. c \<in> set cs \<and>
         \<not> (\<exists>(g, k)\<in>set prev. IsConsistent g (insert c (conn c)))} \<union>
     {(insert c (conn c), k + 1) | c g k. c \<in> set cs \<and> (g, k) \<in> set prev \<and>
         IsConsistent g (insert c (conn c))}"
proof -
  let ?acc0 = "\<lparr>currConsistentGroups = [], consistentFound = replicate (length prev) False,
      candidateKFs = []\<rparr>"
  show "{(insert c (conn c), 0) | c. c \<in> set cs \<and>
         \<not> (\<exists>(g, k)\<in>set prev. IsConsistent g (insert c (conn c)))}
     \<subseteq> set (currConsistentGroups (CheckConsistency conn prev cs))"
    unfolding CheckConsistency_def
    using fold_check_candidate_first_seen[of _ cs prev conn ?acc0] by blast
  have "set (currConsistentGroups ?acc0) = {}" by simp
  with fold_check_candidate_groups[of conn prev cs ?acc0]
  show "set (currConsistentGroups (CheckConsistency conn prev cs)) \<subseteq>
     {(insert c (conn c), 0) | c. c \<in> set cs \<and>
         \<not> (\<exists>(g, k)\<in>set prev. IsConsistent g (insert c (conn c)))} \<union>
     {(insert c (conn c), k + 1) | c g k. c \<in> set cs \<and> (g, k) \<in> set prev \<and>
         IsConsistent g (insert c (conn c))}"
    unfolding CheckConsistency_def by (simp only: Un_empty_left)
qed

subsection \<open>Global bundle adjustment task\<close>


lemma GlobalBA_Stop_GBA:
  "GBA (GlobalBA_Stop s) = (GBA s)\<lparr>stop := True, fullBAIdx := fullBAIdx (GBA s) + 1, thread := None\<rparr>"
  by (simp add: GlobalBA_Stop_def)

lemma correct_mappoint_other:
  "p \<noteq> mappoint \<Longrightarrow> correct_mappoint G loopKFId ks mappoint ms p = ms p"
  by (simp add: correct_mappoint_def Let_def)

lemma correct_mappoints_notin:
  "p \<notin> set mappoints \<Longrightarrow> correct_mappoints G loopKFId ks mappoints ms p = ms p"
  unfolding correct_mappoints_def
  by (induction mappoints arbitrary: ms) (simp_all add: correct_mappoint_other)

lemma correct_mappoints_distinct:
  assumes "distinct mappoints" "P \<in> set mappoints"
  shows "correct_mappoints G loopKFId ks mappoints ms P = correct_mappoint G loopKFId ks P ms P"
proof -
  from assms(2) obtain ys zs where sp: "mappoints = ys @ P # zs"
    by (auto simp: in_set_conv_decomp)
  with assms(1) have ny: "P \<notin> set ys" and nz: "P \<notin> set zs" by auto
  let ?m1 = "correct_mappoints G loopKFId ks ys ms"
  have m1: "?m1 P = ms P" using ny by (rule correct_mappoints_notin)
  have "correct_mappoints G loopKFId ks mappoints ms P =
        correct_mappoints G loopKFId ks zs (correct_mappoint G loopKFId ks P ?m1) P"
    unfolding sp correct_mappoints_def by simp
  also have "\<dots> = correct_mappoint G loopKFId ks P ?m1 P"
    using nz by (rule correct_mappoints_notin)
  also have "\<dots> = correct_mappoint G loopKFId ks P ms P"
    using m1 by (simp add: correct_mappoint_def Let_def)
  finally show ?thesis .
qed

lemma GlobalBA_Run_completion_applies:
  assumes "GlobalBA_Run_completion G lmStops fuel (fullBAIdx (GBA s)) loopKFId s = Some s'"
    and "\<not> stop (GBA s)"
  shows "correct_keyframes G loopKFId fuel (keyFrameOrigins (world s)) (kfs (world s))
            = Some (kfs (world s')) \<and>
         mps (world s') = correct_mappoints G loopKFId (kfs (world s')) (allMapPoints (world s))
            (mps (world s)) \<and>
         bigChangeIdx (world s') = bigChangeIdx (world s) + 1 \<and>
         calls s' = calls s @ [LM_RequestStop, LM_Release] \<and>
         GBA s' = (GBA s)\<lparr>finished := True, running := False\<rparr>"
  using assms
  by (auto simp: GlobalBA_Run_completion_def InformNewBigChange_def Let_def
      split: if_splits option.splits)

lemma G_line_sel:
  "pose_R G_line p = fst p" "pose_t G_line p = snd p"
  "pose_Inverse G_line (r, t) = (r, - (r * t))"
  "pose_mul G_line (r1, t1) (r2, t2) = (r1 * r2, r1 * t2 + t1)"
  "CameraPose_of G_line r t = (r, t)"
  "rot_mul_pt G_line r x = r * x" "pt_add G_line x t = x + t"
  "sc_mul_pt G_line sc t = sc * t" "sc_recip G_line sc = 1 / sc"
  "Sim3_of_pose G_line (r, t) = (r, t, 1)" "Sim3_default G_line = (1, 0, 1)"
  "sim_mul G_line (r1, t1, s1) (r2, t2, s2) = (r1 * r2, s1 * r1 * t2 + t1, s1 * s2)"
  "sim_Inverse G_line (r, t, sc) = (r, - (r * t) / sc, 1 / sc)"
  "sim_Map G_line (r, t, sc) x = sc * r * x + t"
  "sim_R G_line (r, t, sc) = r" "sim_t G_line (r, t, sc) = t" "sim_Scale G_line (r, t, sc) = sc"
  by (simp_all add: G_line_def)

text \<open>
  C4. Let a worker with the current index complete (stop flag not set) and return. Then
  every map point \<open>P\<close> of the map that is not bad ends as follows: if the bundle
  adjustment stamped it, its position is \<open>posGBA\<close>; otherwise, if its reference
  keyframe is stamped when the pass runs, its position is the old one mapped into the
  camera by the reference's \<open>TcwBefGBA\<close> and back by the inverse of the reference's new
  pose; otherwise the point is unchanged. No other field of \<open>P\<close> changes. (The vector of
  all map points is read from a set of pointers, hence distinct.)
\<close>

theorem GlobalBA_mappoint_correction:
  assumes "GlobalBA_Run_completion G lmStops fuel (fullBAIdx (GBA s)) loopKFId s = Some s'"
    and "\<not> stop (GBA s)"
    and "distinct (allMapPoints (world s))" and "P \<in> set (allMapPoints (world s))" and "\<not> mp_isBad (mps (world s) P)"
  shows "(mp_BAGlobalForKF (mps (world s) P) = loopKFId \<longrightarrow>
            mps (world s') P = (mps (world s) P)\<lparr>worldPos := posGBA (mps (world s) P)\<rparr>) \<and>
         (mp_BAGlobalForKF (mps (world s) P) \<noteq> loopKFId \<and>
          kf_BAGlobalForKF (kfs (world s') (referenceKF (mps (world s) P))) = loopKFId \<longrightarrow>
            mps (world s') P = (mps (world s) P)\<lparr>worldPos :=
              pt_add G
                (rot_mul_pt G (pose_R G (pose_Inverse G (pose (kfs (world s') (referenceKF (mps (world s) P))))))
                   (pt_add G
                      (rot_mul_pt G (pose_R G (TcwBefGBA (kfs (world s') (referenceKF (mps (world s) P)))))
                         (worldPos (mps (world s) P)))
                      (pose_t G (TcwBefGBA (kfs (world s') (referenceKF (mps (world s) P)))))))
                (pose_t G (pose_Inverse G (pose (kfs (world s') (referenceKF (mps (world s) P))))))\<rparr>) \<and>
         (mp_BAGlobalForKF (mps (world s) P) \<noteq> loopKFId \<and>
          kf_BAGlobalForKF (kfs (world s') (referenceKF (mps (world s) P))) \<noteq> loopKFId \<longrightarrow>
            mps (world s') P = mps (world s) P)"
proof -
  from GlobalBA_Run_completion_applies[OF assms(1,2)]
  have m: "mps (world s') =
      correct_mappoints G loopKFId (kfs (world s')) (allMapPoints (world s)) (mps (world s))"
    by simp
  show ?thesis
    unfolding m correct_mappoints_distinct[OF assms(3,4)]
    using assms(5) by (simp add: correct_mappoint_def Let_def)
qed

theorem GlobalBA_mappoint_correction_witness:
  "\<exists>s'. GlobalBA_Run_completion G_line True 2 0 20 sys_after_BA = Some s' \<and>
        worldPos (mps (world s') 10) = 6 \<and> worldPos (mps (world s') 11) = 5 \<and> mps (world s') 12 = mps (world sys_after_BA) 12"
proof -
  let ?s' = "the (GlobalBA_Run_completion G_line True 2 0 20 sys_after_BA)"
  have "GlobalBA_Run_completion G_line True 2 0 20 sys_after_BA \<noteq> None"
    by code_simp
  then have c0: "GlobalBA_Run_completion G_line True 2 0 20 sys_after_BA = Some ?s'"
    by simp
  have i0: "fullBAIdx (GBA sys_after_BA) = 0"
    by (simp add: sys_after_BA_def)
  have c: "GlobalBA_Run_completion G_line True 2 (fullBAIdx (GBA sys_after_BA)) 20 sys_after_BA
      = Some ?s'"
    unfolding i0 by (rule c0)
  have ns: "\<not> stop (GBA sys_after_BA)" and d: "distinct (allMapPoints (world sys_after_BA))"
    and m: "10 \<in> set (allMapPoints (world sys_after_BA))" "11 \<in> set (allMapPoints (world sys_after_BA))"
      "12 \<in> set (allMapPoints (world sys_after_BA))"
    and nb: "\<not> mp_isBad (mps (world sys_after_BA) 10)" "\<not> mp_isBad (mps (world sys_after_BA) 11)"
      "\<not> mp_isBad (mps (world sys_after_BA) 12)"
    by (simp_all add: sys_after_BA_def mp_example_def)
  have p: "mps (world sys_after_BA) 10 =
      mp_example\<lparr>worldPos := 4, posGBA := 6, mp_BAGlobalForKF := 20, referenceKF := 1\<rparr>"
    "mps (world sys_after_BA) 11 = mp_example\<lparr>worldPos := 7, referenceKF := 2\<rparr>"
    "mps (world sys_after_BA) 12 = mp_example\<lparr>worldPos := 8, referenceKF := 5\<rparr>"
    by (simp_all add: sys_after_BA_def)
  have k: "kf_BAGlobalForKF (kfs (world ?s') 2) = 20" "pose (kfs (world ?s') 2) = (1, 4)"
    "TcwBefGBA (kfs (world ?s') 2) = (1, 2)" "kf_BAGlobalForKF (kfs (world ?s') 5) = 0"
    by code_simp+
  from GlobalBA_mappoint_correction[OF c ns d m(1) nb(1)] have r10: "worldPos (mps (world ?s') 10) = 6"
    by (simp add: p mp_example_def)
  from GlobalBA_mappoint_correction[OF c ns d m(2) nb(2)] have r11: "worldPos (mps (world ?s') 11) = 5"
    by (simp add: p k mp_example_def G_line_sel)
  from GlobalBA_mappoint_correction[OF c ns d m(3) nb(3)] have r12: "mps (world ?s') 12 = mps (world sys_after_BA) 12"
    by (simp add: p k mp_example_def)
  from c0 r10 r11 r12 show ?thesis by blast
qed

subsection \<open>The task and its workers as threads\<close>

lemma GlobalBA_Run_update_GBA:
  "GlobalBA_Run_update G lmStops fuel loopKFId s = Some s' \<Longrightarrow> GBA s' = GBA s"
  by (auto simp: GlobalBA_Run_update_def Let_def split: if_splits option.splits)

lemma GlobalBA_Run_completion_steps:
  "GlobalBA_Run_completion G lmStops fuel idx loopKFId s =
     (if idx \<noteq> fullBAIdx (GBA s) then Some s
      else map_option (\<lambda>s'. s'\<lparr>GBA := (GBA s')\<lparr>finished := True, running := False\<rparr>\<rparr>)
             (GlobalBA_Run_update G lmStops fuel loopKFId s))"
  by (simp add: GlobalBA_Run_completion_def GlobalBA_Run_update_def Let_def split: option.splits)

lemma Run_steps:
  assumes "caller t = Outside"
  shows "gba_run G lmStops fuel ba [Run_enter loopKFId, Run_statement, Run_statement, Run_statement] t =
           Some (t\<lparr>shared := GlobalBA_Run loopKFId (shared t),
                   workers := workers t @ [Created loopKFId]\<rparr>)"
  using assms by (simp add: GlobalBA_Run_def)

lemma worker_step_cases:
  assumes "worker_step G lmStops fuel ba i t = Some t'" and "i < length (workers t)"
  shows "length (workers t') = length (workers t) \<and> caller t' = caller t \<and>
         fullBAIdx (GBA (shared t')) = fullBAIdx (GBA (shared t)) \<and>
         (\<forall>j. j \<noteq> i \<longrightarrow> workers t' ! j = workers t ! j) \<and>
         (case workers t ! i of
            Created loopKFId \<Rightarrow> workers t' ! i = Adjusting (fullBAIdx (GBA (shared t))) loopKFId \<and>
                                GBA (shared t') = GBA (shared t)
          | Adjusting idx loopKFId \<Rightarrow> workers t' ! i = Adjusted idx loopKFId \<and>
                                GBA (shared t') = GBA (shared t)
          | Adjusted idx loopKFId \<Rightarrow>
              (mutexGBA_held t \<or> idx \<noteq> fullBAIdx (GBA (shared t)) \<longrightarrow> shared t' = shared t) \<and>
              (mutexGBA_held t \<longrightarrow> workers t' ! i = Adjusted idx loopKFId) \<and>
              (\<not> mutexGBA_held t \<and> idx \<noteq> fullBAIdx (GBA (shared t)) \<longrightarrow> workers t' ! i = Exited) \<and>
              (\<not> mutexGBA_held t \<and> idx = fullBAIdx (GBA (shared t)) \<longrightarrow>
                 workers t' ! i = Before_finished) \<and>
              GBA (shared t') = GBA (shared t)
          | Before_finished \<Rightarrow> workers t' ! i = Before_running
          | Before_running \<Rightarrow> workers t' ! i = Exited
          | Exited \<Rightarrow> t' = t)"
  using assms
  by (cases "workers t ! i")
     (auto simp: worker_step_def Let_def dest: GlobalBA_Run_update_GBA
           split: if_splits option.splits)

lemma gba_run_append:
  "gba_run G lmStops fuel ba (as @ bs) t =
     (case gba_run G lmStops fuel ba as t of
        None \<Rightarrow> None
      | Some u \<Rightarrow> gba_run G lmStops fuel ba bs u)"
  by (induction as arbitrary: t) (simp_all split: option.splits)

lemma of_nat_stale:
  "1 \<le> k \<Longrightarrow> k < 2 ^ 32 \<Longrightarrow> (idx :: 32 word) + of_nat k \<noteq> idx"
  using of_nat_neq_0[of k, where 'a = 32] by simp

lemma Stop_calls_simps:
  "Stop_calls [] = 0" "Stop_calls (Stop_call # as) = Suc (Stop_calls as)"
  "Stop_calls (Run_enter loopKFId # as) = Stop_calls as"
  "Stop_calls (Run_statement # as) = Stop_calls as"
  "Stop_calls (Worker i # as) = Stop_calls as"
  "Stop_calls (as @ bs) = Stop_calls as + Stop_calls bs"
  by (simp_all add: Stop_calls_def)

lemma read_within_mono:
  "read_within m n w \<Longrightarrow> m \<le> m' \<Longrightarrow> read_within m' n w"
  by (cases w) (auto simp: read_within_def intro: order_trans)

lemma read_within_Stop:
  "read_within m n w \<Longrightarrow> read_within (Suc m) (n + 1) w"
proof (cases w)
  case (Adjusting idx k)
  assume "read_within m n w"
  with Adjusting obtain j where "j \<le> m" "n = idx + of_nat j"
    by (auto simp: read_within_def)
  then have "Suc j \<le> Suc m" "n + 1 = idx + of_nat (Suc j)" by simp_all
  with Adjusting show ?thesis unfolding read_within_def by (simp del: of_nat_Suc) blast
next
  case (Adjusted idx k)
  assume "read_within m n w"
  with Adjusted obtain j where "j \<le> m" "n = idx + of_nat j"
    by (auto simp: read_within_def)
  then have "Suc j \<le> Suc m" "n + 1 = idx + of_nat (Suc j)" by simp_all
  with Adjusted show ?thesis unfolding read_within_def by (simp del: of_nat_Suc) blast
qed (simp_all add: read_within_def)

lemma gba_step_read_within:
  assumes "gba_step G lmStops fuel ba a t = Some t'"
    and "\<forall>w\<in>set (workers t). read_within m (fullBAIdx (GBA (shared t))) w"
  shows "\<forall>w\<in>set (workers t'). read_within (m + Stop_calls [a]) (fullBAIdx (GBA (shared t'))) w"
proof (cases a)
  case (Run_enter loopKFId)
  with assms show ?thesis by (auto simp: Stop_calls_simps split: if_splits)
next
  case Run_statement
  have "read_within m n (Created k)" for n k
    by (simp add: read_within_def)
  with Run_statement assms show ?thesis
    by (auto simp: Stop_calls_simps split: caller_pc.splits if_splits)
next
  case Stop_call
  show ?thesis
  proof (cases "caller t = Outside \<and> \<not> mutexGBA_held t")
    case True
    with Stop_call assms(1) have t': "t' = t\<lparr>shared := GlobalBA_Stop (shared t)\<rparr>" by simp
    have "\<forall>w\<in>set (workers t). read_within (Suc m) (fullBAIdx (GBA (shared t)) + 1) w"
      using assms(2) read_within_Stop by blast
    then show ?thesis
      unfolding t' Stop_call by (simp add: Stop_calls_simps GlobalBA_Stop_def)
  next
    case False
    with Stop_call assms(1) have t': "t' = t" by auto
    have "\<forall>w\<in>set (workers t). read_within (Suc m) (fullBAIdx (GBA (shared t))) w"
      using assms(2) read_within_mono[of m _ _ "Suc m"] by auto
    then show ?thesis
      unfolding t' Stop_call by (simp add: Stop_calls_simps)
  qed
next
  case (Worker i)
  show ?thesis
  proof (cases "i < length (workers t)")
    case False
    with Worker assms show ?thesis by (simp add: Stop_calls_simps)
  next
    case True
    with Worker assms(1) have s: "worker_step G lmStops fuel ba i t = Some t'" by simp
    note c = worker_step_cases[OF s True]
    show ?thesis
    proof
      fix w assume "w \<in> set (workers t')"
      then obtain j where j: "j < length (workers t')" "w = workers t' ! j"
        by (auto simp: in_set_conv_nth)
      show "read_within (m + Stop_calls [a]) (fullBAIdx (GBA (shared t'))) w"
      proof (cases "j = i")
        case False
        with c j have "w = workers t ! j" "j < length (workers t)" by simp_all
        with assms(2) c Worker show ?thesis by (simp add: Stop_calls_simps)
      next
        case e: True
        from assms(2) True have "read_within m (fullBAIdx (GBA (shared t))) (workers t ! i)"
          by simp
        with c j e Worker show ?thesis
          by (cases "workers t ! i")
             (auto simp: read_within_def Stop_calls_simps split: if_splits)
      qed
    qed
  qed
qed

lemma gba_run_read_within:
  assumes "gba_run G lmStops fuel ba as t = Some t'"
    and "\<forall>w\<in>set (workers t). read_within m (fullBAIdx (GBA (shared t))) w"
  shows "\<forall>w\<in>set (workers t'). read_within (m + Stop_calls as) (fullBAIdx (GBA (shared t'))) w"
  using assms
proof (induction as arbitrary: t m)
  case Nil
  then show ?case by (simp add: Stop_calls_simps)
next
  case (Cons a as)
  from Cons.prems(1) obtain u where s: "gba_step G lmStops fuel ba a t = Some u"
    and r: "gba_run G lmStops fuel ba as u = Some t'"
    by (auto split: option.splits)
  have "m + Stop_calls [a] + Stop_calls as = m + Stop_calls (a # as)"
    using Stop_calls_simps(6)[of "[a]" as] by simp
  with Cons.IH[OF r gba_step_read_within[OF s Cons.prems(2)]] show ?case by simp
qed




lemma stop_after_read_runs:
  "gba_run G_line True 2 ba_done (Run_20 @ [Worker 0]) (gba_threads_init sys_before_Run) \<noteq> None"
  "workers (the (gba_run G_line True 2 ba_done (Run_20 @ [Worker 0])
                   (gba_threads_init sys_before_Run))) = [Adjusting 0 20]"
  "caller (the (gba_run G_line True 2 ba_done (Run_20 @ [Worker 0])
                  (gba_threads_init sys_before_Run))) = Outside"
  "GBA (shared (the (gba_run G_line True 2 ba_done (Run_20 @ [Worker 0])
                       (gba_threads_init sys_before_Run)))) =
     \<lparr>running = True, finished = False, stop = False, fullBAIdx = 0, thread = Some 20\<rparr>"
  "gba_run G_line True 2 ba_done ((Run_20 @ [Worker 0]) @ Stop_call # Run_30 @ [Worker 0, Worker 0])
     (gba_threads_init sys_before_Run) \<noteq> None"
  "workers (the (gba_run G_line True 2 ba_done
                   ((Run_20 @ [Worker 0]) @ Stop_call # Run_30 @ [Worker 0, Worker 0])
                   (gba_threads_init sys_before_Run))) = [Exited, Created 30]"
  "bigChangeIdx (world (shared (the (gba_run G_line True 2 ba_done
                   ((Run_20 @ [Worker 0]) @ Stop_call # Run_30 @ [Worker 0, Worker 0])
                   (gba_threads_init sys_before_Run))))) = 1"
  by code_simp+



lemma stale_within_not_held:
  "\<forall>w\<in>set (workers t). stale_within m n w \<Longrightarrow> \<not> mutexGBA_held t"
  by (auto simp: mutexGBA_held_def stale_within_def)

lemma stale_within_Stop:
  "stale_within m n w \<Longrightarrow> stale_within (Suc m) (n + 1) w"
proof (cases w)
  case (Adjusting idx k)
  assume "stale_within m n w"
  with Adjusting obtain j where "j \<le> m" "1 \<le> j" "n = idx + of_nat j"
    by (auto simp: stale_within_def)
  then have "Suc j \<le> Suc m" "1 \<le> Suc j" "n + 1 = idx + of_nat (Suc j)" by simp_all
  with Adjusting show ?thesis unfolding stale_within_def by (simp del: of_nat_Suc) blast
next
  case (Adjusted idx k)
  assume "stale_within m n w"
  with Adjusted obtain j where "j \<le> m" "1 \<le> j" "n = idx + of_nat j"
    by (auto simp: stale_within_def)
  then have "Suc j \<le> Suc m" "1 \<le> Suc j" "n + 1 = idx + of_nat (Suc j)" by simp_all
  with Adjusted show ?thesis unfolding stale_within_def by (simp del: of_nat_Suc) blast
qed (simp_all add: stale_within_def)

lemma read_within_Stop_stale:
  assumes "read_within m n w" and "has_read w" and "w \<noteq> Before_finished"
    and "w \<noteq> Before_running"
  shows "stale_within (Suc m) (n + 1) w"
proof (cases w)
  case (Adjusting idx k)
  with assms(1) obtain j where "j \<le> m" "n = idx + of_nat j"
    by (auto simp: read_within_def)
  then have "Suc j \<le> Suc m" "1 \<le> Suc j" "n + 1 = idx + of_nat (Suc j)" by simp_all
  with Adjusting show ?thesis unfolding stale_within_def by (simp del: of_nat_Suc) blast
next
  case (Adjusted idx k)
  with assms(1) obtain j where "j \<le> m" "n = idx + of_nat j"
    by (auto simp: read_within_def)
  then have "Suc j \<le> Suc m" "1 \<le> Suc j" "n + 1 = idx + of_nat (Suc j)" by simp_all
  with Adjusted show ?thesis unfolding stale_within_def by (simp del: of_nat_Suc) blast
qed (use assms in \<open>simp_all add: stale_within_def has_read_def\<close>)

lemma gba_step_flags_stuck:
  assumes "\<not> is_Run_enter a"
    and "caller t = Outside" and "running (GBA (shared t))" and "\<not> finished (GBA (shared t))"
    and st: "\<forall>w\<in>set (workers t). stale_within m (fullBAIdx (GBA (shared t))) w"
    and b: "m + Stop_calls [a] < 2 ^ 32"
  shows "\<exists>t'. gba_step G lmStops fuel ba a t = Some t' \<and> caller t' = Outside \<and>
              running (GBA (shared t')) \<and> \<not> finished (GBA (shared t')) \<and>
              (\<forall>w\<in>set (workers t').
                  stale_within (m + Stop_calls [a]) (fullBAIdx (GBA (shared t'))) w)"
proof (cases a)
  case (Run_enter k)
  with assms(1) show ?thesis by (simp add: is_Run_enter_def)
next
  case Run_statement
  with assms show ?thesis by (simp add: Stop_calls_simps)
next
  case Stop_call
  note nh = stale_within_not_held[OF st]
  have "\<forall>w\<in>set (workers t). stale_within (Suc m) (fullBAIdx (GBA (shared t)) + 1) w"
    using st stale_within_Stop by blast
  with Stop_call assms(2-4) nh show ?thesis
    by (simp add: GlobalBA_Stop_def Stop_calls_simps)
next
  case (Worker i)
  show ?thesis
  proof (cases "i < length (workers t)")
    case False
    with Worker assms show ?thesis by (simp add: Stop_calls_simps)
  next
    case True
    note nh = stale_within_not_held[OF st]
    from st True have si: "stale_within m (fullBAIdx (GBA (shared t))) (workers t ! i)"
      by simp
    have up: "\<forall>w\<in>set ((workers t)[i := v]). stale_within m (fullBAIdx (GBA (shared t))) w"
      if "stale_within m (fullBAIdx (GBA (shared t))) v" for v
      using that st set_update_subset_insert[of "workers t" i v] by auto
    show ?thesis
    proof (cases "workers t ! i")
      case (Created k)
      with si show ?thesis by (simp add: stale_within_def)
    next
      case (Adjusting idx k)
      with si have "stale_within m (fullBAIdx (GBA (shared t))) (Adjusted idx k)"
        by (simp add: stale_within_def)
      from up[OF this] Adjusting Worker True assms(2-4) show ?thesis
        by (simp add: worker_step_def Let_def Stop_calls_simps)
    next
      case (Adjusted idx k)
      with si obtain j where "j \<le> m" "1 \<le> j" "fullBAIdx (GBA (shared t)) = idx + of_nat j"
        by (auto simp: stale_within_def)
      with b of_nat_stale[of j idx] have ne: "idx \<noteq> fullBAIdx (GBA (shared t))"
        by simp
      have "stale_within m (fullBAIdx (GBA (shared t))) Exited"
        by (simp add: stale_within_def)
      from up[OF this] Adjusted Worker True assms(2-4) nh ne show ?thesis
        by (simp add: worker_step_def Let_def Stop_calls_simps)
    next
      case Before_finished
      with si show ?thesis by (simp add: stale_within_def)
    next
      case Before_running
      with si show ?thesis by (simp add: stale_within_def)
    next
      case Exited
      with Worker True assms show ?thesis
        by (simp add: worker_step_def Let_def Stop_calls_simps)
    qed
  qed
qed

lemma gba_run_flags_stuck:
  assumes "\<forall>a\<in>set as. \<not> is_Run_enter a"
    and "caller t = Outside" and "running (GBA (shared t))" and "\<not> finished (GBA (shared t))"
    and "\<forall>w\<in>set (workers t). stale_within m (fullBAIdx (GBA (shared t))) w"
    and "m + Stop_calls as < 2 ^ 32"
  shows "\<exists>t'. gba_run G lmStops fuel ba as t = Some t' \<and>
              running (GBA (shared t')) \<and> \<not> finished (GBA (shared t'))"
  using assms
proof (induction as arbitrary: t m)
  case Nil
  then show ?case by simp
next
  case (Cons a as)
  from Cons.prems(1) have a: "\<not> is_Run_enter a" and as: "\<forall>a\<in>set as. \<not> is_Run_enter a"
    by simp_all
  have e: "m + Stop_calls [a] + Stop_calls as = m + Stop_calls (a # as)"
    using Stop_calls_simps(6)[of "[a]" as] by simp
  with Cons.prems(6) have b1: "m + Stop_calls [a] < 2 ^ 32"
    and b2: "m + Stop_calls [a] + Stop_calls as < 2 ^ 32"
    by simp_all
  from gba_step_flags_stuck[OF a Cons.prems(2-5) b1, of G lmStops fuel ba] obtain u where
    u: "gba_step G lmStops fuel ba a t = Some u" "caller u = Outside" "running (GBA (shared u))"
      "\<not> finished (GBA (shared u))"
      "\<forall>w\<in>set (workers u). stale_within (m + Stop_calls [a]) (fullBAIdx (GBA (shared u))) w"
    by blast
  from Cons.IH[OF as u(2-5) b2] u(1) show ?case by simp
qed

text \<open>
  C9 (as the code has it). Take any interleaving from a task without workers up to a
  point where the task is running (\<^verbatim>\<open>Running()\<close> true, \<^verbatim>\<open>Finished()\<close> false), every
  worker has read its index, and the caller calls \<^verbatim>\<open>Stop\<close>. From then on, as long as
  \<^verbatim>\<open>Run\<close> is not called again and \<^verbatim>\<open>Stop\<close> has been called fewer than \<open>2 ^ 32\<close> times (so
  that the index has not come round), whatever the workers do and however often \<^verbatim>\<open>Stop\<close>
  is called, every step returns, \<^verbatim>\<open>Running()\<close> reports true and \<^verbatim>\<open>Finished()\<close> reports
  false.
\<close>

theorem GlobalBA_flags_stuck_after_Stop:
  assumes reach: "gba_run G lmStops fuel ba pre (gba_threads_init start) = Some t"
    and running: "Running (shared t)" "\<not> Finished (shared t)"
    and stop: "caller t = Outside" "\<not> mutexGBA_held t"
    and read: "\<forall>w\<in>set (workers t). has_read w"
    and norun: "\<forall>a\<in>set post. \<not> is_Run_enter a"
    and bound: "Stop_calls (pre @ Stop_call # post) < 2 ^ 32"
  shows "\<exists>t'. gba_run G lmStops fuel ba (Stop_call # post) t = Some t' \<and>
              Running (shared t') \<and> \<not> Finished (shared t')"
proof -
  have "\<forall>w\<in>set (workers (gba_threads_init start)).
          read_within 0 (fullBAIdx (GBA (shared (gba_threads_init start)))) w"
    by (simp add: gba_threads_init_def)
  from gba_run_read_within[OF reach this]
  have h: "\<forall>w\<in>set (workers t). read_within (Stop_calls pre) (fullBAIdx (GBA (shared t))) w"
    by simp
  let ?t1 = "t\<lparr>shared := GlobalBA_Stop (shared t)\<rparr>"
  have st: "\<forall>w\<in>set (workers ?t1).
              stale_within (Suc (Stop_calls pre)) (fullBAIdx (GBA (shared ?t1))) w"
  proof
    fix w assume w: "w \<in> set (workers ?t1)"
    with h read stop(2) have r: "read_within (Stop_calls pre) (fullBAIdx (GBA (shared t))) w"
      and "has_read w" "w \<noteq> Before_finished" "w \<noteq> Before_running"
      by (auto simp: mutexGBA_held_def)
    then have "stale_within (Suc (Stop_calls pre)) (fullBAIdx (GBA (shared t)) + 1) w"
      by (rule read_within_Stop_stale)
    then show "stale_within (Suc (Stop_calls pre)) (fullBAIdx (GBA (shared ?t1))) w"
      by (simp add: GlobalBA_Stop_def)
  qed
  have f: "caller ?t1 = Outside" "running (GBA (shared ?t1))" "\<not> finished (GBA (shared ?t1))"
    using running stop(1) by (simp_all add: Running_def Finished_def GlobalBA_Stop_def)
  have b: "Suc (Stop_calls pre) + Stop_calls post < 2 ^ 32"
    using bound by (simp add: Stop_calls_simps)
  from gba_run_flags_stuck[OF norun f st b, of G lmStops fuel ba] stop show ?thesis
    by (simp add: Running_def Finished_def)
qed

lemma stop_after_read_flags:
  "Running (shared (the (gba_run G_line True 2 ba_done (Run_20 @ [Worker 0])
                           (gba_threads_init sys_before_Run))))"
  "\<not> Finished (shared (the (gba_run G_line True 2 ba_done (Run_20 @ [Worker 0])
                             (gba_threads_init sys_before_Run))))"
  by code_simp+

theorem GlobalBA_flags_stuck_after_Stop_witness:
  "\<exists>t t'. gba_run G_line True 2 ba_done (Run_20 @ [Worker 0]) (gba_threads_init sys_before_Run)
             = Some t \<and>
          Running (shared t) \<and> \<not> Finished (shared t) \<and> caller t = Outside \<and>
          workers t = [Adjusting 0 20] \<and>
          Stop_calls ((Run_20 @ [Worker 0]) @ Stop_call # [Worker 0, Stop_call, Worker 0, Worker 0])
             < 2 ^ 32 \<and>
          gba_run G_line True 2 ba_done (Stop_call # [Worker 0, Stop_call, Worker 0, Worker 0]) t
             = Some t' \<and>
          Running (shared t') \<and> \<not> Finished (shared t')"
proof -
  obtain t where t: "gba_run G_line True 2 ba_done (Run_20 @ [Worker 0])
      (gba_threads_init sys_before_Run) = Some t"
    using stop_after_read_runs(1) by auto
  with stop_after_read_runs(2,3) stop_after_read_flags
  have w: "workers t = [Adjusting 0 20]" and c: "caller t = Outside"
    and f: "Running (shared t)" "\<not> Finished (shared t)"
    by simp_all
  from w have m: "\<not> mutexGBA_held t" and r: "\<forall>w\<in>set (workers t). has_read w"
    by (simp_all add: mutexGBA_held_def has_read_def)
  have n: "\<forall>a\<in>set [Worker 0, Stop_call, Worker 0, Worker 0]. \<not> is_Run_enter a"
    by (simp add: is_Run_enter_def)
  have b: "Stop_calls ((Run_20 @ [Worker 0]) @ Stop_call # [Worker 0, Stop_call, Worker 0, Worker 0])
      < 2 ^ 32"
    by (simp add: Stop_calls_def Run_20_def)
  from GlobalBA_flags_stuck_after_Stop[OF t f c m r n b] t f c w b show ?thesis
    by blast
qed

text \<open>
  C9 as stated fails: \<^verbatim>\<open>Run(20)\<close> creates worker 0 and \<^verbatim>\<open>Stop\<close> is called before that
  worker has read \<^verbatim>\<open>fullBAIdx_\<close>. Right after the \<^verbatim>\<open>Stop\<close>, \<^verbatim>\<open>Running()\<close> is true and
  \<^verbatim>\<open>Finished()\<close> false. \<^verbatim>\<open>Run\<close> is not called again; the worker reads the index 1, finds
  it unchanged when its bundle adjustment returns, skips the update of the map since the
  stop flag is up, and writes the flags: \<^verbatim>\<open>Running()\<close> is then false and \<^verbatim>\<open>Finished()\<close> true.
\<close>

theorem flags_change_after_Stop_without_Run:
  "\<exists>t1 t2 t'.
     gba_run G_line True 2 ba_done Run_20 (gba_threads_init sys_before_Run) = Some t1 \<and>
     workers t1 = [Created 20] \<and> Running (shared t1) \<and> \<not> Finished (shared t1) \<and>
     gba_run G_line True 2 ba_done [Stop_call] t1 = Some t2 \<and>
     fullBAIdx (GBA (shared t2)) = fullBAIdx (GBA (shared t1)) + 1 \<and>
     Running (shared t2) \<and> \<not> Finished (shared t2) \<and>
     gba_run G_line True 2 ba_done [Worker 0, Worker 0, Worker 0, Worker 0, Worker 0] t2 = Some t' \<and>
     workers t' = [Exited] \<and> \<not> Running (shared t') \<and> Finished (shared t')"
proof -
  let ?w = "[Worker 0, Worker 0, Worker 0, Worker 0, Worker 0]"
  let ?i = "gba_threads_init sys_before_Run"
  have a: "gba_run G_line True 2 ba_done Run_20 ?i \<noteq> None"
    "workers (the (gba_run G_line True 2 ba_done Run_20 ?i)) = [Created 20]"
    "Running (shared (the (gba_run G_line True 2 ba_done Run_20 ?i)))"
    "\<not> Finished (shared (the (gba_run G_line True 2 ba_done Run_20 ?i)))"
    "fullBAIdx (GBA (shared (the (gba_run G_line True 2 ba_done Run_20 ?i)))) = 0"
    by code_simp+
  have b: "gba_run G_line True 2 ba_done (Run_20 @ [Stop_call]) ?i \<noteq> None"
    "fullBAIdx (GBA (shared (the (gba_run G_line True 2 ba_done (Run_20 @ [Stop_call]) ?i)))) = 1"
    "Running (shared (the (gba_run G_line True 2 ba_done (Run_20 @ [Stop_call]) ?i)))"
    "\<not> Finished (shared (the (gba_run G_line True 2 ba_done (Run_20 @ [Stop_call]) ?i)))"
    by code_simp+
  have c: "gba_run G_line True 2 ba_done ((Run_20 @ [Stop_call]) @ ?w) ?i \<noteq> None"
    "workers (the (gba_run G_line True 2 ba_done ((Run_20 @ [Stop_call]) @ ?w) ?i)) = [Exited]"
    "\<not> Running (shared (the (gba_run G_line True 2 ba_done ((Run_20 @ [Stop_call]) @ ?w) ?i)))"
    "Finished (shared (the (gba_run G_line True 2 ba_done ((Run_20 @ [Stop_call]) @ ?w) ?i)))"
    by code_simp+
  obtain t1 where t1: "gba_run G_line True 2 ba_done Run_20 ?i = Some t1"
    using a(1) by auto
  have e2: "gba_run G_line True 2 ba_done [Stop_call] t1 =
      gba_run G_line True 2 ba_done (Run_20 @ [Stop_call]) ?i"
    unfolding gba_run_append[of _ _ _ _ Run_20] t1 by simp
  obtain t2 where t2: "gba_run G_line True 2 ba_done [Stop_call] t1 = Some t2"
    using b(1) unfolding e2 by auto
  have e3: "gba_run G_line True 2 ba_done ?w t2 =
      gba_run G_line True 2 ba_done ((Run_20 @ [Stop_call]) @ ?w) ?i"
    unfolding gba_run_append[of _ _ _ _ "Run_20 @ [Stop_call]"] e2[symmetric] t2 by simp
  obtain t' where t': "gba_run G_line True 2 ba_done ?w t2 = Some t'"
    using c(1) unfolding e3 by auto
  from a(2-5) t1 have 1: "workers t1 = [Created 20]" "Running (shared t1)"
    "\<not> Finished (shared t1)" "fullBAIdx (GBA (shared t1)) = 0"
    by simp_all
  from b(2-4) t2 have 2: "fullBAIdx (GBA (shared t2)) = 1" "Running (shared t2)"
    "\<not> Finished (shared t2)"
    unfolding e2 by simp_all
  from c(2-4) t' have 3: "workers t' = [Exited]" "\<not> Running (shared t')" "Finished (shared t')"
    unfolding e3 by simp_all
  from 1(4) 2(1) have 4: "fullBAIdx (GBA (shared t2)) = fullBAIdx (GBA (shared t1)) + 1"
    by simp
  from t1 t2 t' 1(1-3) 2(2,3) 3 4 show ?thesis
    by blast
qed

subsection \<open>Loop detection\<close>

lemma FindLoopInCandidateKFs_calls:
  "FindLoopInCandidateKFs E G fuel ks currentKF cands loop fs cs = Some (found, loop1, cs2) \<Longrightarrow>
   cs2 = cs @ map KF_SetNotErase cands"
  by (auto simp: FindLoopInCandidateKFs_def Let_def split: option.splits)

lemma Detect_too_early:
  "sint (to_int (kf_id (kfs (world s) currentKF))) < sint (lastLoopKFId' + 10) \<Longrightarrow>
   Detect E G fuel currentKF loop lastLoopKFId' d s = Some (False, loop, d, s)"
  by (simp add: Detect_def)

lemma sint_to_int:
  "fits_int x \<Longrightarrow> sint (to_int x) = x"
  by (simp add: fits_int_def to_int_def sint_sbintrunc' signed_take_bit_int_eq_self)

lemma sint_to_int_add_10:
  "fits_int (x + 10) \<Longrightarrow> sint (to_int x + 10) = x + 10"
  using sint_to_int[of "x + 10"] by (simp add: to_int_def)

lemma Detect_checks_consistency:
  assumes far: "\<not> sint (to_int (kf_id (kfs (world s) currentKF))) < sint (lastLoopKFId' + 10)"
    and tmp: "DetectLoopCandidates E currentKF (minScore_of E (kfs (world s)) currentKF) = tmp"
    and ne: "tmp \<noteq> []"
    and acc: "CheckConsistency (\<lambda>k. connected (kfs (world s) k)) (prevConsistentGroups d) tmp = acc"
  shows "candidateKFs acc = [] \<Longrightarrow>
           Detect E G fuel currentKF loop lastLoopKFId' d s =
             Some (False, loop, d\<lparr>prevConsistentGroups := currConsistentGroups acc\<rparr>,
                   s\<lparr>calls := calls s @ [DB_DetectLoopCandidates currentKF]\<rparr>)"
    and "(Detect E G fuel currentKF loop lastLoopKFId' d s = None) =
           (candidateKFs acc \<noteq> [] \<and>
            FindLoopInCandidateKFs E G fuel (kfs (world s)) currentKF (candidateKFs acc) loop
              (fixScale d) (calls s @ [DB_DetectLoopCandidates currentKF]) = None)"
    and "Detect E G fuel currentKF loop lastLoopKFId' d s = Some (found, loop', d', s') \<Longrightarrow>
           d' = d\<lparr>prevConsistentGroups := currConsistentGroups acc\<rparr> \<and>
           (\<exists>evs. calls s' = calls s @ [DB_DetectLoopCandidates currentKF] @
                      map KF_SetNotErase (candidateKFs acc) @ evs \<and>
                  (\<forall>e\<in>set evs. \<exists>k. e = KF_SetErase k))"
proof -
  show "candidateKFs acc = [] \<Longrightarrow>
           Detect E G fuel currentKF loop lastLoopKFId' d s =
             Some (False, loop, d\<lparr>prevConsistentGroups := currConsistentGroups acc\<rparr>,
                   s\<lparr>calls := calls s @ [DB_DetectLoopCandidates currentKF]\<rparr>)"
    using far tmp ne acc by (simp add: Detect_def Let_def)
  show "(Detect E G fuel currentKF loop lastLoopKFId' d s = None) =
           (candidateKFs acc \<noteq> [] \<and>
            FindLoopInCandidateKFs E G fuel (kfs (world s)) currentKF (candidateKFs acc) loop
              (fixScale d) (calls s @ [DB_DetectLoopCandidates currentKF]) = None)"
    using far tmp ne acc
    by (auto simp: Detect_def Let_def split: option.splits prod.splits)
  assume r: "Detect E G fuel currentKF loop lastLoopKFId' d s = Some (found, loop', d', s')"
  show "d' = d\<lparr>prevConsistentGroups := currConsistentGroups acc\<rparr> \<and>
           (\<exists>evs. calls s' = calls s @ [DB_DetectLoopCandidates currentKF] @
                      map KF_SetNotErase (candidateKFs acc) @ evs \<and>
                  (\<forall>e\<in>set evs. \<exists>k. e = KF_SetErase k))"
  proof (cases "candidateKFs acc = []")
    case True
    with r far tmp ne acc show ?thesis
      by (auto simp: Detect_def Let_def)
  next
    case False
    with r far tmp ne acc obtain f1 loop1 cs2 where
      fl: "FindLoopInCandidateKFs E G fuel (kfs (world s)) currentKF (candidateKFs acc) loop
              (fixScale d) (calls s @ [DB_DetectLoopCandidates currentKF]) = Some (f1, loop1, cs2)"
      by (auto simp: Detect_def Let_def split: option.splits)
    note c = FindLoopInCandidateKFs_calls[OF fl]
    from r far tmp ne acc False fl
    have "d' = d\<lparr>prevConsistentGroups := currConsistentGroups acc\<rparr> \<and>
          (\<exists>evs. calls s' = cs2 @ evs \<and> (\<forall>e\<in>set evs. \<exists>k. e = KF_SetErase k))"
      by (auto simp: Detect_def Let_def split: if_splits prod.splits)
    then show ?thesis unfolding c by auto
  qed
qed

lemma Detect_revisit_accepts:
  "Detect collaborators_revisit G_line 2 30 loop_garbage (to_int 0) detector_revisit sys_revisit
     \<noteq> None"
  "fst (the (Detect collaborators_revisit G_line 2 30 loop_garbage (to_int 0) detector_revisit
               sys_revisit))"
  by code_simp+

lemma ransac_candidate_matched:
  "ransac_candidate E G ks currentKF fs cands i st = (Some (k, S, m), st') \<Longrightarrow> k = cands ! i"
  by (cases st)
     (auto simp: ransac_candidate_def Let_def split: if_splits option.splits prod.splits)

lemma ransac_pass_matched:
  "ransac_pass E G ks currentKF fs cands is st = (Some (k, S, m), st') \<Longrightarrow>
   \<exists>i\<in>set is. k = cands ! i"
proof (induction "is" arbitrary: st)
  case Nil
  then show ?case by simp
next
  case (Cons i "is")
  obtain r st1 where c: "ransac_candidate E G ks currentKF fs cands i st = (r, st1)"
    by (cases "ransac_candidate E G ks currentKF fs cands i st")
  show ?case
  proof (cases r)
    case None
    with Cons.prems c have "ransac_pass E G ks currentKF fs cands is st1 = (Some (k, S, m), st')"
      by simp
    from Cons.IH[OF this] show ?thesis by auto
  next
    case (Some x)
    with Cons.prems c have "ransac_candidate E G ks currentKF fs cands i st = (Some (k, S, m), st')"
      by simp
    from ransac_candidate_matched[OF this] show ?thesis by simp
  qed
qed

lemma ransac_loop_matched:
  "ransac_loop E G ks currentKF fs cands fuel st = Some (Some (k, S, m)) \<Longrightarrow> k \<in> set cands"
proof (induction fuel arbitrary: st)
  case 0
  then show ?case by (cases st) (simp split: if_splits)
next
  case (Suc fuel)
  obtain slots nc where st: "st = (slots, nc)" by (cases st)
  obtain r st1 where p: "ransac_pass E G ks currentKF fs cands [0..<length cands] (slots, nc) = (r, st1)"
    by (cases "ransac_pass E G ks currentKF fs cands [0..<length cands] (slots, nc)")
  show ?case
  proof (cases r)
    case None
    with Suc.prems st p have "ransac_loop E G ks currentKF fs cands fuel st1 = Some (Some (k, S, m))"
      by (simp split: if_splits)
    from Suc.IH[OF this] show ?thesis .
  next
    case (Some x)
    with Suc.prems st p have "r = Some (k, S, m)"
      by (simp split: if_splits)
    with p ransac_pass_matched[of E G ks currentKF fs cands "[0..<length cands]" "(slots, nc)" k S m st1]
    show ?thesis by auto
  qed
qed

lemma FindLoopInCandidateKFs_matched:
  "FindLoopInCandidateKFs E G fuel ks currentKF cands loop fs cs = Some (True, loop1, cs2) \<Longrightarrow>
   matchedKF loop1 \<in> set cands"
  by (auto simp: FindLoopInCandidateKFs_def Let_def split: option.splits dest: ransac_loop_matched)

lemma candidateKFs_subset:
  "set (candidateKFs (CheckConsistency conn prev cs)) \<subseteq> set cs"
  using fold_check_candidate_candidateKFs[of conn prev cs]
  by (simp add: CheckConsistency_def)

lemma Detect_accept_calls:
  assumes "Detect E G fuel currentKF loop lastId d s = Some (True, loop', d', s')"
  shows "\<exists>cands. set cands \<subseteq> set (DetectLoopCandidates E currentKF (minScore_of E (kfs (world s)) currentKF)) \<and>
           matchedKF loop' \<in> set cands \<and>
           calls s' = calls s @ [DB_DetectLoopCandidates currentKF] @ map KF_SetNotErase cands @
              map KF_SetErase (filter (\<lambda>candidateKF. candidateKF \<noteq> matchedKF loop') cands)"
proof -
  let ?tmp = "DetectLoopCandidates E currentKF (minScore_of E (kfs (world s)) currentKF)"
  let ?cands = "candidateKFs (CheckConsistency (\<lambda>k. connected (kfs (world s) k))
                   (prevConsistentGroups d) ?tmp)"
  from assms have far: "\<not> sint (to_int (kf_id (kfs (world s) currentKF))) < sint (lastId + 10)"
    and tmp: "?tmp \<noteq> []" and ne: "?cands \<noteq> []"
    by (auto simp: Detect_def Let_def split: if_splits)
  from assms far tmp ne obtain found loop1 cs2 where
    fl: "FindLoopInCandidateKFs E G fuel (kfs (world s)) currentKF ?cands loop (fixScale d)
               (calls s @ [DB_DetectLoopCandidates currentKF]) = Some (found, loop1, cs2)"
    by (auto simp: Detect_def Let_def split: option.splits)
  with assms far tmp ne have found: "found"
    by (auto simp: Detect_def Let_def split: if_splits)
  from FindLoopInCandidateKFs_calls[OF fl]
  have cs2: "cs2 = calls s @ [DB_DetectLoopCandidates currentKF] @ map KF_SetNotErase ?cands"
    by simp
  from fl found have m: "matchedKF loop1 \<in> set ?cands"
    by (auto dest: FindLoopInCandidateKFs_matched)
  from assms far tmp ne fl found
  have "matchedKF loop' = matchedKF loop1 \<and>
        calls s' = cs2 @ map KF_SetErase (filter (\<lambda>candidateKF. candidateKF \<noteq> matchedKF loop') ?cands)"
    by (auto simp: Detect_def Let_def split: if_splits prod.splits)
  with m cs2 candidateKFs_subset[of "\<lambda>k. connected (kfs (world s) k)" "prevConsistentGroups d" ?tmp]
  show ?thesis
    by (intro exI[of _ ?cands]) simp
qed

text \<open>
  C1 (as the code has it). A fresh detector has an empty cache. Four keyframes in a row
  pass the test of line 164 and get from the database the one candidate \<open>c\<close>, whose
  covisibility group is \<open>g\<close> each time. On the first three \<^verbatim>\<open>Detect\<close> returns false right
  after the query, and stores the group with the counts 0, 1 and 2; no Sim3 estimation is
  started (nothing but the query is recorded). On the fourth \<^verbatim>\<open>Detect\<close> hands \<open>c\<close> to
  \<^verbatim>\<open>FindLoopInCandidateKFs\<close>: it returns exactly when that function returns on the
  candidates \<open>[c]\<close>, the cache then holds the group with count 3, and the calls recorded
  start with the query and \<^verbatim>\<open>SetNotErase\<close> on \<open>c\<close>, followed by \<^verbatim>\<open>SetErase\<close> calls only.

  In general, for any cache and any candidates of a call that returns: the candidates
  handed to the Sim3 estimation (those \<^verbatim>\<open>SetNotErase\<close> is called on) are the candidates
  whose group is consistent with a cached group of count \<open>k\<close> with \<open>k + 1 \<ge> 3\<close>, in the
  order of the candidates and once each; the cache the call leaves holds with count 0 the
  group of every candidate that no cached group is consistent with, and any other entry
  of it is the group of a candidate with the count of a consistent cached group plus 1.
\<close>

theorem Detect_admits_on_fourth:
  fixes E :: "('sim, 'solver) collaborators" and G :: "('pose, 'sim, 'rot, 'pt, 'sc) geom"
    and s1 s2 s3 s4 :: "('pose, 'pt) sys"
  assumes fresh: "prevConsistentGroups d0 = []"
    and k1: "Detect_queries E s1 K1 l1 [c]" "insert c (connected (kfs (world s1) c)) = g"
    and k2: "Detect_queries E s2 K2 l2 [c]" "insert c (connected (kfs (world s2) c)) = g"
    and k3: "Detect_queries E s3 K3 l3 [c]" "insert c (connected (kfs (world s3) c)) = g"
    and k4: "Detect_queries E s4 K4 l4 [c]" "insert c (connected (kfs (world s4) c)) = g"
  shows
    "Detect E G fuel K1 loopA l1 d0 s1 =
       Some (False, loopA, d0\<lparr>prevConsistentGroups := [(g, 0)]\<rparr>,
             s1\<lparr>calls := calls s1 @ [DB_DetectLoopCandidates K1]\<rparr>) \<and>
     Detect E G fuel K2 loopB l2 (d0\<lparr>prevConsistentGroups := [(g, 0)]\<rparr>) s2 =
       Some (False, loopB, d0\<lparr>prevConsistentGroups := [(g, 1)]\<rparr>,
             s2\<lparr>calls := calls s2 @ [DB_DetectLoopCandidates K2]\<rparr>) \<and>
     Detect E G fuel K3 loopC l3 (d0\<lparr>prevConsistentGroups := [(g, 1)]\<rparr>) s3 =
       Some (False, loopC, d0\<lparr>prevConsistentGroups := [(g, 2)]\<rparr>,
             s3\<lparr>calls := calls s3 @ [DB_DetectLoopCandidates K3]\<rparr>) \<and>
     ((Detect E G fuel K4 loopD l4 (d0\<lparr>prevConsistentGroups := [(g, 2)]\<rparr>) s4 = None) =
      (FindLoopInCandidateKFs E G fuel (kfs (world s4)) K4 [c] loopD (fixScale d0)
         (calls s4 @ [DB_DetectLoopCandidates K4]) = None)) \<and>
     (\<forall>found loop' d' s'.
        Detect E G fuel K4 loopD l4 (d0\<lparr>prevConsistentGroups := [(g, 2)]\<rparr>) s4
          = Some (found, loop', d', s') \<longrightarrow>
        d' = d0\<lparr>prevConsistentGroups := [(g, 3)]\<rparr> \<and>
        (\<exists>evs. calls s' = calls s4 @ [DB_DetectLoopCandidates K4, KF_SetNotErase c] @ evs \<and>
               (\<forall>e\<in>set evs. \<exists>k. e = KF_SetErase k))) \<and>
     (\<forall>s currentKF l tmp d loop found loop' d' s'.
        Detect_queries E s currentKF l tmp \<and> tmp \<noteq> [] \<and>
        Detect E G fuel currentKF loop l d s = Some (found, loop', d', s') \<longrightarrow>
        (\<exists>evs. calls s' = calls s @ [DB_DetectLoopCandidates currentKF] @
                  map KF_SetNotErase
                    (filter (\<lambda>c. \<exists>(g, k)\<in>set (prevConsistentGroups d).
                               IsConsistent g (insert c (connected (kfs (world s) c))) \<and> sint (k + 1) \<ge> 3)
                       tmp) @ evs \<and>
               (\<forall>e\<in>set evs. \<exists>k. e = KF_SetErase k)) \<and>
        {(insert c (connected (kfs (world s) c)), 0) | c. c \<in> set tmp \<and>
            \<not> (\<exists>(g, k)\<in>set (prevConsistentGroups d).
                  IsConsistent g (insert c (connected (kfs (world s) c))))}
          \<subseteq> set (prevConsistentGroups d') \<and>
        set (prevConsistentGroups d') \<subseteq>
          {(insert c (connected (kfs (world s) c)), 0) | c. c \<in> set tmp \<and>
              \<not> (\<exists>(g, k)\<in>set (prevConsistentGroups d).
                    IsConsistent g (insert c (connected (kfs (world s) c))))} \<union>
          {(insert c (connected (kfs (world s) c)), k + 1) | c g k. c \<in> set tmp \<and>
              (g, k) \<in> set (prevConsistentGroups d) \<and>
              IsConsistent g (insert c (connected (kfs (world s) c)))})"
proof (intro conjI allI impI)
  have first: "CheckConsistency (\<lambda>k. connected (kfs (world s) k)) [] [c] =
      \<lparr>currConsistentGroups = [(g, 0)], consistentFound = [], candidateKFs = []\<rparr>"
    if "insert c (connected (kfs (world s) c)) = g" for s :: "('pose, 'pt) sys"
    using that CheckConsistency_first[of "\<lambda>k. connected (kfs (world s) k)" c] by simp
  have nxt: "CheckConsistency (\<lambda>k. connected (kfs (world s) k)) [(g, n)] [c] =
      \<lparr>currConsistentGroups = [(g, n + 1)], consistentFound = [True],
       candidateKFs = (if sint (n + 1) \<ge> 3 then [c] else [])\<rparr>"
    if "insert c (connected (kfs (world s) c)) = g" for s :: "('pose, 'pt) sys" and n
    using that CheckConsistency_next[of "\<lambda>k. connected (kfs (world s) k)" c n] by simp
  have ne: "[c] \<noteq> []" by simp
  show "Detect E G fuel K1 loopA l1 d0 s1 =
       Some (False, loopA, d0\<lparr>prevConsistentGroups := [(g, 0)]\<rparr>,
             s1\<lparr>calls := calls s1 @ [DB_DetectLoopCandidates K1]\<rparr>)"
    using Detect_checks_consistency(1)[where d = d0 and G = G and fuel = fuel and loop = loopA,
            OF k1(1)[unfolded Detect_queries_def, THEN conjunct1]
               k1(1)[unfolded Detect_queries_def, THEN conjunct2] ne refl]
    by (simp add: fresh first[OF k1(2)])
  show "Detect E G fuel K2 loopB l2 (d0\<lparr>prevConsistentGroups := [(g, 0)]\<rparr>) s2 =
       Some (False, loopB, d0\<lparr>prevConsistentGroups := [(g, 1)]\<rparr>,
             s2\<lparr>calls := calls s2 @ [DB_DetectLoopCandidates K2]\<rparr>)"
    using Detect_checks_consistency(1)[where d = "d0\<lparr>prevConsistentGroups := [(g, 0)]\<rparr>"
              and G = G and fuel = fuel and loop = loopB,
            OF k2(1)[unfolded Detect_queries_def, THEN conjunct1]
               k2(1)[unfolded Detect_queries_def, THEN conjunct2] ne refl]
    by (simp add: nxt[OF k2(2)])
  show "Detect E G fuel K3 loopC l3 (d0\<lparr>prevConsistentGroups := [(g, 1)]\<rparr>) s3 =
       Some (False, loopC, d0\<lparr>prevConsistentGroups := [(g, 2)]\<rparr>,
             s3\<lparr>calls := calls s3 @ [DB_DetectLoopCandidates K3]\<rparr>)"
    using Detect_checks_consistency(1)[where d = "d0\<lparr>prevConsistentGroups := [(g, 1)]\<rparr>"
              and G = G and fuel = fuel and loop = loopC,
            OF k3(1)[unfolded Detect_queries_def, THEN conjunct1]
               k3(1)[unfolded Detect_queries_def, THEN conjunct2] ne refl]
    by (simp add: nxt[OF k3(2)])
  note four = Detect_checks_consistency[where d = "d0\<lparr>prevConsistentGroups := [(g, 2)]\<rparr>"
              and G = G and fuel = fuel and loop = loopD,
            OF k4(1)[unfolded Detect_queries_def, THEN conjunct1]
               k4(1)[unfolded Detect_queries_def, THEN conjunct2] ne refl]
  show "(Detect E G fuel K4 loopD l4 (d0\<lparr>prevConsistentGroups := [(g, 2)]\<rparr>) s4 = None) =
      (FindLoopInCandidateKFs E G fuel (kfs (world s4)) K4 [c] loopD (fixScale d0)
         (calls s4 @ [DB_DetectLoopCandidates K4]) = None)"
    using four(2) by (simp add: nxt[OF k4(2)])
  {
    fix found loop' d' s'
    assume "Detect E G fuel K4 loopD l4 (d0\<lparr>prevConsistentGroups := [(g, 2)]\<rparr>) s4
          = Some (found, loop', d', s')"
    from four(3)[OF this]
    show "d' = d0\<lparr>prevConsistentGroups := [(g, 3)]\<rparr>"
      and "\<exists>evs. calls s' = calls s4 @ [DB_DetectLoopCandidates K4, KF_SetNotErase c] @ evs \<and>
               (\<forall>e\<in>set evs. \<exists>k. e = KF_SetErase k)"
      by (simp_all add: nxt[OF k4(2)])
  }
  fix s :: "('pose, 'pt) sys" and currentKF l tmp d and loop :: "'sim Loop" and found loop' d' s'
  assume a: "Detect_queries E s currentKF l tmp \<and> tmp \<noteq> [] \<and>
        Detect E G fuel currentKF loop l d s = Some (found, loop', d', s')"
  let ?conn = "\<lambda>k. connected (kfs (world s) k)"
  from a have q: "\<not> sint (to_int (kf_id (kfs (world s) currentKF))) < sint (l + 10)"
    "DetectLoopCandidates E currentKF (minScore_of E (kfs (world s)) currentKF) = tmp"
    and ne': "tmp \<noteq> []"
    and r: "Detect E G fuel currentKF loop l d s = Some (found, loop', d', s')"
    by (simp_all add: Detect_queries_def)
  note gen = Detect_checks_consistency(3)[OF q ne' refl r]
  from gen have d': "prevConsistentGroups d' =
      currConsistentGroups (CheckConsistency ?conn (prevConsistentGroups d) tmp)"
    by simp
  from gen show "\<exists>evs. calls s' = calls s @ [DB_DetectLoopCandidates currentKF] @
                  map KF_SetNotErase
                    (filter (\<lambda>c. \<exists>(g, k)\<in>set (prevConsistentGroups d).
                               IsConsistent g (insert c (connected (kfs (world s) c))) \<and> sint (k + 1) \<ge> 3)
                       tmp) @ evs \<and>
               (\<forall>e\<in>set evs. \<exists>k. e = KF_SetErase k)"
    unfolding CheckConsistency_candidateKFs by blast
  show "{(insert c (connected (kfs (world s) c)), 0) | c. c \<in> set tmp \<and>
            \<not> (\<exists>(g, k)\<in>set (prevConsistentGroups d).
                  IsConsistent g (insert c (connected (kfs (world s) c))))}
          \<subseteq> set (prevConsistentGroups d')"
    unfolding d' by (rule CheckConsistency_groups(1)[of ?conn])
  show "set (prevConsistentGroups d') \<subseteq>
          {(insert c (connected (kfs (world s) c)), 0) | c. c \<in> set tmp \<and>
              \<not> (\<exists>(g, k)\<in>set (prevConsistentGroups d).
                    IsConsistent g (insert c (connected (kfs (world s) c))))} \<union>
          {(insert c (connected (kfs (world s) c)), k + 1) | c g k. c \<in> set tmp \<and>
              (g, k) \<in> set (prevConsistentGroups d) \<and>
              IsConsistent g (insert c (connected (kfs (world s) c)))}"
    unfolding d' by (rule CheckConsistency_groups(2)[of ?conn])
qed

lemma stream_queries:
  "Detect_queries collaborators_stream sys_stream 11 (to_int 0) [1]"
  "Detect_queries collaborators_stream sys_stream 12 (to_int 0) [1]"
  "Detect_queries collaborators_stream sys_stream 13 (to_int 0) [1]"
  "Detect_queries collaborators_stream sys_stream 14 (to_int 0) [1]"
  "insert 1 (connected (kfs (world sys_stream) 1)) = {1, 2}"
  by (simp_all add: Detect_queries_def collaborators_stream_def collaborators_revisit_def
      sys_stream_def conn_AB_def to_int_def insert_commute)

lemma stream_fourth_returns:
  "Detect collaborators_stream G_line 4 14 loop_garbage (to_int 0)
     (detector_fresh\<lparr>prevConsistentGroups := [({1, 2}, 2)]\<rparr>) sys_stream \<noteq> None"
  by code_simp

theorem Detect_admits_on_fourth_witness:
  "prevConsistentGroups detector_fresh = [] \<and>
   Detect collaborators_stream G_line 4 11 loop_garbage (to_int 0) detector_fresh sys_stream =
     Some (False, loop_garbage, detector_fresh\<lparr>prevConsistentGroups := [({1, 2}, 0)]\<rparr>,
           sys_stream\<lparr>calls := calls sys_stream @ [DB_DetectLoopCandidates 11]\<rparr>) \<and>
   Detect collaborators_stream G_line 4 12 loop_garbage (to_int 0)
       (detector_fresh\<lparr>prevConsistentGroups := [({1, 2}, 0)]\<rparr>) sys_stream =
     Some (False, loop_garbage, detector_fresh\<lparr>prevConsistentGroups := [({1, 2}, 1)]\<rparr>,
           sys_stream\<lparr>calls := calls sys_stream @ [DB_DetectLoopCandidates 12]\<rparr>) \<and>
   Detect collaborators_stream G_line 4 13 loop_garbage (to_int 0)
       (detector_fresh\<lparr>prevConsistentGroups := [({1, 2}, 1)]\<rparr>) sys_stream =
     Some (False, loop_garbage, detector_fresh\<lparr>prevConsistentGroups := [({1, 2}, 2)]\<rparr>,
           sys_stream\<lparr>calls := calls sys_stream @ [DB_DetectLoopCandidates 13]\<rparr>) \<and>
   (\<exists>found loop' s' evs.
      Detect collaborators_stream G_line 4 14 loop_garbage (to_int 0)
          (detector_fresh\<lparr>prevConsistentGroups := [({1, 2}, 2)]\<rparr>) sys_stream =
        Some (found, loop', detector_fresh\<lparr>prevConsistentGroups := [({1, 2}, 3)]\<rparr>, s') \<and>
      calls s' = calls sys_stream @ [DB_DetectLoopCandidates 14, KF_SetNotErase 1] @ evs)"
proof -
  have fresh: "prevConsistentGroups detector_fresh = []"
    by (simp add: detector_fresh_def)
  note t = Detect_admits_on_fourth[where G = G_line and fuel = 4 and loopA = loop_garbage
      and loopB = loop_garbage and loopC = loop_garbage and loopD = loop_garbage,
      OF fresh stream_queries(1,5) stream_queries(2,5) stream_queries(3,5) stream_queries(4,5)]
  obtain found loop' d' s' where
    r: "Detect collaborators_stream G_line 4 14 loop_garbage (to_int 0)
          (detector_fresh\<lparr>prevConsistentGroups := [({1, 2}, 2)]\<rparr>) sys_stream
        = Some (found, loop', d', s')"
    using stream_fourth_returns
    by (cases "Detect collaborators_stream G_line 4 14 loop_garbage (to_int 0)
          (detector_fresh\<lparr>prevConsistentGroups := [({1, 2}, 2)]\<rparr>) sys_stream") auto
  from t r have "d' = detector_fresh\<lparr>prevConsistentGroups := [({1, 2}, 3)]\<rparr> \<and>
      (\<exists>evs. calls s' = calls sys_stream @ [DB_DetectLoopCandidates 14, KF_SetNotErase 1] @ evs)"
    by blast
  with r have 4: "\<exists>found loop' s' evs.
      Detect collaborators_stream G_line 4 14 loop_garbage (to_int 0)
          (detector_fresh\<lparr>prevConsistentGroups := [({1, 2}, 2)]\<rparr>) sys_stream =
        Some (found, loop', detector_fresh\<lparr>prevConsistentGroups := [({1, 2}, 3)]\<rparr>, s') \<and>
      calls s' = calls sys_stream @ [DB_DetectLoopCandidates 14, KF_SetNotErase 1] @ evs"
    by blast
  from fresh t 4 show ?thesis
    by blast
qed

text \<open>
  C1 as stated fails: from the empty cache, the third consecutive keyframe that yields
  candidate \<open>1\<close> with group \<open>{1, 2}\<close> admits nothing (the group's count is then 2).
\<close>

theorem CheckConsistency_third_admits_nothing:
  "candidateKFs (CheckConsistency conn_AB
      (currConsistentGroups (CheckConsistency conn_AB
         (currConsistentGroups (CheckConsistency conn_AB [] [1])) [1])) [1]) = [] \<and>
   currConsistentGroups (CheckConsistency conn_AB
      (currConsistentGroups (CheckConsistency conn_AB
         (currConsistentGroups (CheckConsistency conn_AB [] [1])) [1])) [1]) = [({1, 2}, 2)]"
proof -
  have g: "{1, 2} = insert (1::nat) (conn_AB 1)"
    by (simp add: conn_AB_def)
  have c1: "currConsistentGroups (CheckConsistency conn_AB [] [1]) = [({1, 2}, 0)]"
    unfolding g by (simp only: CheckConsistency_first consistency_acc.simps)
  have c2: "currConsistentGroups (CheckConsistency conn_AB [({1, 2}, 0)] [1]) = [({1, 2}, 1)]"
    unfolding g by (simp only: CheckConsistency_next consistency_acc.simps) simp
  have c3: "CheckConsistency conn_AB [({1, 2}, 1)] [1] =
     \<lparr>currConsistentGroups = [({1, 2}, 2)], consistentFound = [True], candidateKFs = []\<rparr>"
    unfolding g by (simp only: CheckConsistency_next) simp
  show ?thesis
    unfolding c1 c2 c3 by simp
qed

lemma Detect_narrows_identifier:
  assumes "kf_id (kfs (world s) currentKF) = 2 ^ 31"
  shows "Detect E G fuel currentKF loop (to_int 0) d s = Some (False, loop, d, s)"
proof -
  have "sint (to_int (2 ^ 31)) < sint (to_int 0 + 10)"
    by (simp add: to_int_def)
  then show ?thesis
    using assms by (simp add: Detect_too_early)
qed

text \<open>
  C2. Let the member \<^verbatim>\<open>lastLoopKFId_\<close> and \<^verbatim>\<open>lastLoopKFId_ + 10\<close> be integers an \<^verbatim>\<open>int\<close>
  can hold, so that the conversion at the call keeps the member and the sum of line 164
  does not wrap, and let the identifier of the current keyframe be no less than the least
  \<^verbatim>\<open>int\<close>. When the identifier is less than \<^verbatim>\<open>lastLoopKFId_ + 10\<close>, \<^verbatim>\<open>Detect\<close> returns false
  at once, whatever the fuel: the \<^verbatim>\<open>loop\<close> argument, the detector's cache and the shared
  state are as before, and no call is recorded, so the database is not queried. Hence
  whenever \<^verbatim>\<open>Detect\<close> returns true, the current keyframe's identifier is at least 10 above
  \<^verbatim>\<open>lastLoopKFId_\<close>.
\<close>

theorem Detect_admission_filter:
  assumes "- (2 ^ 31) \<le> kf_id (kfs (world s) currentKF)"
    and "fits_int lastLoopKFId'" and "fits_int (lastLoopKFId' + 10)"
  shows "(kf_id (kfs (world s) currentKF) < lastLoopKFId' + 10 \<longrightarrow>
            Detect E G fuel currentKF loop (to_int lastLoopKFId') d s = Some (False, loop, d, s)) \<and>
         (Detect E G fuel currentKF loop (to_int lastLoopKFId') d s = Some (True, loop', d', s') \<longrightarrow>
            kf_id (kfs (world s) currentKF) - lastLoopKFId' \<ge> 10)"
proof (intro conjI impI)
  assume lt: "kf_id (kfs (world s) currentKF) < lastLoopKFId' + 10"
  with assms have "fits_int (kf_id (kfs (world s) currentKF))"
    by (simp add: fits_int_def)
  with lt assms(3)
  have "sint (to_int (kf_id (kfs (world s) currentKF))) < sint (to_int lastLoopKFId' + 10)"
    by (simp add: sint_to_int sint_to_int_add_10)
  then show "Detect E G fuel currentKF loop (to_int lastLoopKFId') d s = Some (False, loop, d, s)"
    by (rule Detect_too_early)
next
  assume a: "Detect E G fuel currentKF loop (to_int lastLoopKFId') d s = Some (True, loop', d', s')"
  show "kf_id (kfs (world s) currentKF) - lastLoopKFId' \<ge> 10"
  proof (rule ccontr)
    assume "\<not> 10 \<le> kf_id (kfs (world s) currentKF) - lastLoopKFId'"
    then have lt: "kf_id (kfs (world s) currentKF) < lastLoopKFId' + 10" by simp
    with assms have "fits_int (kf_id (kfs (world s) currentKF))"
      by (simp add: fits_int_def)
    with lt assms(3)
    have "sint (to_int (kf_id (kfs (world s) currentKF))) < sint (to_int lastLoopKFId' + 10)"
      by (simp add: sint_to_int sint_to_int_add_10)
    then have "Detect E G fuel currentKF loop (to_int lastLoopKFId') d s = Some (False, loop, d, s)"
      by (rule Detect_too_early)
    with a show False by simp
  qed
qed

theorem Detect_admission_filter_witness:
  "- (2 ^ 31) \<le> kf_id (kfs (world sys_revisit) 30) \<and> fits_int 25 \<and> fits_int (25 + 10) \<and>
   fits_int 0 \<and> fits_int (0 + 10) \<and>
   kf_id (kfs (world sys_revisit) 30) < 25 + 10 \<and>
   Detect collaborators_revisit G_line 0 30 loop_garbage (to_int 25) detector_revisit sys_revisit
     = Some (False, loop_garbage, detector_revisit, sys_revisit) \<and>
   (\<exists>loop' d' s'.
      Detect collaborators_revisit G_line 2 30 loop_garbage (to_int 0) detector_revisit sys_revisit
        = Some (True, loop', d', s') \<and>
      kf_id (kfs (world sys_revisit) 30) - 0 \<ge> 10)"
proof -
  have f: "- (2 ^ 31) \<le> kf_id (kfs (world sys_revisit) 30)" "fits_int 25" "fits_int (25 + 10)"
    "fits_int 0" "fits_int (0 + 10)"
    by (simp_all add: sys_revisit_def fits_int_def)
  have early: "kf_id (kfs (world sys_revisit) 30) < 25 + 10"
    by (simp add: sys_revisit_def)
  from Detect_admission_filter
         [OF f(1,2,3), where E = collaborators_revisit and G = G_line and fuel = 0
           and loop = loop_garbage and d = detector_revisit] early
  have 1: "Detect collaborators_revisit G_line 0 30 loop_garbage (to_int 25) detector_revisit sys_revisit
     = Some (False, loop_garbage, detector_revisit, sys_revisit)"
    by blast
  obtain loop' d' s' where
    acc: "Detect collaborators_revisit G_line 2 30 loop_garbage (to_int 0) detector_revisit sys_revisit
        = Some (True, loop', d', s')"
    using Detect_revisit_accepts
    by (cases "Detect collaborators_revisit G_line 2 30 loop_garbage (to_int 0) detector_revisit
                 sys_revisit")
       auto
  from Detect_admission_filter
         [OF f(1,4,5), where E = collaborators_revisit and G = G_line and fuel = 2
           and loop = loop_garbage and d = detector_revisit and loop' = loop' and d' = d'
           and s' = s']
       acc
  have 2: "kf_id (kfs (world sys_revisit) 30) - 0 \<ge> 10"
    by blast
  from f early 1 acc 2 show ?thesis by blast
qed

text \<open>
  C7. Let \<^verbatim>\<open>Detect\<close> reach the projection step: the admission filter passes, \<open>cands\<close>
  are the admitted candidates, not empty, and \<^verbatim>\<open>FindLoopInCandidateKFs\<close> returns true
  leaving \<open>loop1\<close>. Then \<^verbatim>\<open>Detect\<close> returns, and it returns true exactly when at least 40
  entries of the matched points, after the projection search, are not null. The calls it
  has recorded are the database query, \<^verbatim>\<open>SetNotErase\<close> on every admitted candidate and
  then \<^verbatim>\<open>SetErase\<close> on every admitted candidate other than the matched keyframe when it
  accepts, on every admitted candidate when it rejects.
\<close>

theorem Detect_accepts_iff_40_matches:
  assumes far: "\<not> sint (to_int (kf_id (kfs (world s) currentKF))) < sint (lastLoopKFId' + 10)"
    and cands: "cands = candidateKFs (CheckConsistency (\<lambda>k. connected (kfs (world s) k))
                   (prevConsistentGroups d)
                   (DetectLoopCandidates E currentKF (minScore_of E (kfs (world s)) currentKF)))"
    and ne: "cands \<noteq> []"
    and fl: "FindLoopInCandidateKFs E G fuel (kfs (world s)) currentKF cands loop (fixScale d)
               (calls s @ [DB_DetectLoopCandidates currentKF]) = Some (True, loop1, cs2)"
  shows "\<exists>loop' d' s'.
           Detect E G fuel currentKF loop lastLoopKFId' d s =
             Some (40 \<le> length (filter (\<lambda>mappoint. mappoint \<noteq> None) (matchedPoints loop')),
                   loop', d', s') \<and>
           matchedKF loop' = matchedKF loop1 \<and>
           matchedPoints loop' = SearchByProjection E currentKF (Scw loop1) (loopMapPoints loop')
                                   (matchedPoints loop1) 10 \<and>
           calls s' = calls s @ [DB_DetectLoopCandidates currentKF] @ map KF_SetNotErase cands @
             (if 40 \<le> length (filter (\<lambda>mappoint. mappoint \<noteq> None) (matchedPoints loop'))
              then map KF_SetErase (filter (\<lambda>candidateKF. candidateKF \<noteq> matchedKF loop') cands)
              else map KF_SetErase cands)"
proof -
  have tmp: "DetectLoopCandidates E currentKF (minScore_of E (kfs (world s)) currentKF) \<noteq> []"
    using ne unfolding cands by (auto simp: CheckConsistency_def)
  from FindLoopInCandidateKFs_calls[OF fl]
  have cs2: "cs2 = calls s @ [DB_DetectLoopCandidates currentKF] @ map KF_SetNotErase cands"
    by simp
  obtain lmps ms where col: "collect_loop_points (kfs (world s)) (kf_id (kfs (world s) currentKF))
      (covisible (kfs (world s) (matchedKF loop1)) @ [matchedKF loop1]) (mps (world s)) = (lmps, ms)"
    by (cases "collect_loop_points (kfs (world s)) (kf_id (kfs (world s) currentKF))
      (covisible (kfs (world s) (matchedKF loop1)) @ [matchedKF loop1]) (mps (world s))")
  define loop3 where "loop3 = loop1\<lparr>loopMapPoints := lmps,
      matchedPoints := SearchByProjection E currentKF (Scw loop1) lmps (matchedPoints loop1) 10\<rparr>"
  define found where
    "found = (40 \<le> length (filter (\<lambda>mappoint. mappoint \<noteq> None) (matchedPoints loop3)))"
  define s' where "s' = s\<lparr>world := (world s)\<lparr>mps := ms\<rparr>,
      calls := cs2 @ (if found
         then map KF_SetErase (filter (\<lambda>candidateKF. candidateKF \<noteq> matchedKF loop3) cands)
         else map KF_SetErase cands)\<rparr>"
  have "Detect E G fuel currentKF loop lastLoopKFId' d s =
      Some (found, loop3, d\<lparr>prevConsistentGroups := currConsistentGroups
              (CheckConsistency (\<lambda>k. connected (kfs (world s) k)) (prevConsistentGroups d)
                 (DetectLoopCandidates E currentKF (minScore_of E (kfs (world s)) currentKF)))\<rparr>, s')"
    using far tmp ne fl col unfolding cands
    by (simp add: Detect_def Let_def loop3_def found_def s'_def cands)
  moreover have "matchedKF loop3 = matchedKF loop1"
    and "matchedPoints loop3 = SearchByProjection E currentKF (Scw loop1) (loopMapPoints loop3)
           (matchedPoints loop1) 10"
    by (simp_all add: loop3_def)
  moreover have "calls s' = calls s @ [DB_DetectLoopCandidates currentKF] @ map KF_SetNotErase cands @
             (if found
              then map KF_SetErase (filter (\<lambda>candidateKF. candidateKF \<noteq> matchedKF loop3) cands)
              else map KF_SetErase cands)"
    by (simp add: s'_def cs2)
  ultimately show ?thesis
    unfolding found_def by blast
qed

lemma revisit_far:
  "\<not> sint (to_int (kf_id (kfs (world sys_revisit) 30))) < sint (to_int 0 + 10)"
  by (simp add: sys_revisit_def to_int_def)

lemma revisit_cands:
  "[3, 4] = candidateKFs (CheckConsistency (\<lambda>k. connected (kfs (world sys_revisit) k))
      (prevConsistentGroups detector_revisit)
      (DetectLoopCandidates collaborators_revisit 30
         (minScore_of collaborators_revisit (kfs (world sys_revisit)) 30)))"
  "[3, 4] = candidateKFs (CheckConsistency (\<lambda>k. connected (kfs (world sys_revisit) k))
      (prevConsistentGroups detector_revisit)
      (DetectLoopCandidates collaborators_few_matches 30
         (minScore_of collaborators_few_matches (kfs (world sys_revisit)) 30)))"
  by code_simp+

lemma revisit_FindLoop:
  "FindLoopInCandidateKFs collaborators_revisit G_line 2 (kfs (world sys_revisit)) 30 [3, 4]
     loop_garbage (fixScale detector_revisit) (calls sys_revisit @ [DB_DetectLoopCandidates 30])
   = Some (True,
           loop_garbage\<lparr>matchedKF := 3, Scw := (1, - 2, 1),
                        matchedPoints := Some 100 # Some 101 # Some 102 # replicate 37 None\<rparr>,
           [DB_DetectLoopCandidates 30, KF_SetNotErase 3, KF_SetNotErase 4])"
  "FindLoopInCandidateKFs collaborators_few_matches G_line 2 (kfs (world sys_revisit)) 30 [3, 4]
     loop_garbage (fixScale detector_revisit) (calls sys_revisit @ [DB_DetectLoopCandidates 30])
   = Some (True,
           loop_garbage\<lparr>matchedKF := 3, Scw := (1, - 2, 1),
                        matchedPoints := Some 100 # Some 101 # Some 102 # replicate 37 None\<rparr>,
           [DB_DetectLoopCandidates 30, KF_SetNotErase 3, KF_SetNotErase 4])"
  by code_simp+

theorem Detect_accepts_iff_40_matches_witness:
  "(\<exists>loop' d' s'.
      Detect collaborators_revisit G_line 2 30 loop_garbage (to_int 0) detector_revisit sys_revisit
        = Some (True, loop', d', s') \<and>
      calls s' = [DB_DetectLoopCandidates 30, KF_SetNotErase 3, KF_SetNotErase 4, KF_SetErase 4]) \<and>
   (\<exists>loop' d' s'.
      Detect collaborators_few_matches G_line 2 30 loop_garbage (to_int 0) detector_revisit sys_revisit
        = Some (False, loop', d', s') \<and>
      calls s' = [DB_DetectLoopCandidates 30, KF_SetNotErase 3, KF_SetNotErase 4,
                  KF_SetErase 3, KF_SetErase 4])"
proof -
  have ne: "[3, 4] \<noteq> ([] :: kfptr list)" by simp
  have c0: "calls sys_revisit = []" by (simp add: sys_revisit_def)
  have p1: "SearchByProjection collaborators_revisit k S points matches r = replicate 40 (Some 100)"
    for k S points matches r
    by (simp add: collaborators_revisit_def)
  have p2: "SearchByProjection collaborators_few_matches k S points matches r = matches"
    for k S points matches r
    by (simp add: collaborators_few_matches_def)
  have l: "matchedKF (loop_garbage\<lparr>matchedKF := 3, Scw := (1, - 2, 1),
             matchedPoints := Some 100 # Some 101 # Some 102 # replicate 37 None\<rparr>) = 3"
    "matchedPoints (loop_garbage\<lparr>matchedKF := 3, Scw := (1, - 2, 1),
             matchedPoints := Some 100 # Some 101 # Some 102 # replicate 37 None\<rparr>)
       = Some 100 # Some 101 # Some 102 # replicate 37 None"
    by simp_all
  from Detect_accepts_iff_40_matches[OF revisit_far revisit_cands(1) ne revisit_FindLoop(1)]
  have 1: "\<exists>loop' d' s'.
      Detect collaborators_revisit G_line 2 30 loop_garbage (to_int 0) detector_revisit sys_revisit
        = Some (True, loop', d', s') \<and>
      calls s' = [DB_DetectLoopCandidates 30, KF_SetNotErase 3, KF_SetNotErase 4, KF_SetErase 4]"
    unfolding p1 l c0 by auto
  from Detect_accepts_iff_40_matches[OF revisit_far revisit_cands(2) ne revisit_FindLoop(2)]
  have 2: "\<exists>loop' d' s'.
      Detect collaborators_few_matches G_line 2 30 loop_garbage (to_int 0) detector_revisit sys_revisit
        = Some (False, loop', d', s') \<and>
      calls s' = [DB_DetectLoopCandidates 30, KF_SetNotErase 3, KF_SetNotErase 4,
                  KF_SetErase 3, KF_SetErase 4]"
    unfolding p2 l c0 by auto
  from 1 2 show ?thesis by blast
qed

subsection \<open>Loop correction\<close>

lemma no_SetErase_since_refl: "no_SetErase_since cs cs"
  by (simp add: no_SetErase_since_def)

lemma no_SetErase_since_trans:
  "no_SetErase_since cs cs1 \<Longrightarrow> no_SetErase_since cs1 cs2 \<Longrightarrow> no_SetErase_since cs cs2"
  by (auto simp: no_SetErase_since_def)

lemma no_SetErase_since_append:
  "(\<forall>k. KF_SetErase k \<notin> set evs) \<Longrightarrow> no_SetErase_since cs (cs @ evs)"
  by (auto simp: no_SetErase_since_def)

lemma no_SetErase_since_fold:
  assumes "\<And>x st. no_SetErase_since (g st) (g (f x st))"
  shows "no_SetErase_since (g st) (g (fold f xs st))"
proof (induction xs arbitrary: st)
  case Nil
  show ?case by (simp add: no_SetErase_since_refl)
next
  case (Cons x xs)
  from assms[of st x] Cons.IH[of "f x st"] show ?case
    by (auto intro: no_SetErase_since_trans)
qed

lemma call_UpdateConnections_calls:
  "no_SetErase_since (snd st) (snd (call_UpdateConnections C k st))"
  by (cases st) (simp add: call_UpdateConnections_def no_SetErase_since_append)

lemma call_Replace_calls:
  "no_SetErase_since (snd st) (snd (call_Replace C p q st))"
  by (cases st) (simp add: call_Replace_def no_SetErase_since_append)

lemma correct_point_calls:
  "no_SetErase_since (snd st) (snd (correct_point G cid rid corr x st))"
  by (cases st) (auto simp: correct_point_def Let_def no_SetErase_since_append no_SetErase_since_refl
      split: option.splits)

lemma correct_neighbor_calls:
  "no_SetErase_since (snd st) (snd (correct_neighbor C G currentKF Non v st))"
proof (cases st)
  case (Pair w cs)
  let ?f = "correct_point G (kf_id (kfs w currentKF)) (kf_id (kfs w (fst v)))
      (sim_mul G (sim_Inverse G (snd v))
         (case map_of Non (fst v) of None \<Rightarrow> Sim3_default G | Some S \<Rightarrow> S))"
  have 1: "no_SetErase_since (snd (mps w, cs))
       (snd (fold ?f (mapPointMatches (kfs w (fst v))) (mps w, cs)))"
    by (rule no_SetErase_since_fold) (rule correct_point_calls)
  obtain ms cs1 where f: "fold ?f (mapPointMatches (kfs w (fst v))) (mps w, cs) = (ms, cs1)"
    by (cases "fold ?f (mapPointMatches (kfs w (fst v))) (mps w, cs)")
  with 1 have 2: "no_SetErase_since cs cs1" by simp
  let ?w2 = "w\<lparr>mps := ms\<rparr>\<lparr>kfs := (kfs (w\<lparr>mps := ms\<rparr>))(fst v :=
      (kfs (w\<lparr>mps := ms\<rparr>) (fst v))\<lparr>pose := CameraPose_of G (sim_R G (snd v))
         (sc_mul_pt G (sc_recip G (sim_Scale G (snd v))) (sim_t G (snd v)))\<rparr>)\<rparr>"
  have 3: "no_SetErase_since cs1 (snd (call_UpdateConnections C (fst v) (?w2, cs1)))"
    using call_UpdateConnections_calls[of "(?w2, cs1)" C "fst v"] by simp
  have "correct_neighbor C G currentKF Non v (w, cs) = call_UpdateConnections C (fst v) (?w2, cs1)"
    using f by (simp add: correct_neighbor_def Let_def)
  with no_SetErase_since_trans[OF 2 3] show ?thesis
    unfolding Pair by simp
qed

lemma fuse_matched_point_calls:
  "no_SetErase_since (snd st) (snd (fuse_matched_point C currentKF mp i st))"
  using call_Replace_calls
  by (cases st) (auto simp: fuse_matched_point_def Let_def no_SetErase_since_append
      no_SetErase_since_refl split: option.splits)

lemma replace_fused_calls:
  "no_SetErase_since (snd st) (snd (replace_fused C rp lmps i st))"
  by (simp add: replace_fused_def no_SetErase_since_refl call_Replace_calls split: option.splits)

lemma fuse_neighbor_calls:
  "no_SetErase_since (snd st) (snd (fuse_neighbor C lmps v st))"
proof (cases st)
  case (Pair w cs)
  obtain rp w1 where f: "Fuse C (fst v) (snd v) lmps 4 w = (rp, w1)"
    by (cases "Fuse C (fst v) (snd v) lmps 4 w")
  have "no_SetErase_since (snd (w1, cs @ [Matcher_Fuse (fst v)]))
      (snd (fold (replace_fused C rp lmps) [0..<length lmps] (w1, cs @ [Matcher_Fuse (fst v)])))"
    by (rule no_SetErase_since_fold) (rule replace_fused_calls)
  moreover have "no_SetErase_since cs (cs @ [Matcher_Fuse (fst v)])"
    by (simp add: no_SetErase_since_append)
  ultimately show ?thesis
    unfolding Pair using f
    by (auto simp: fuse_neighbor_def intro: no_SetErase_since_trans)
qed

lemma loop_connections_of_calls:
  "no_SetErase_since (snd (snd st)) (snd (snd (loop_connections_of C cks k st)))"
proof (cases st)
  case (fields LC w cs)
  from call_UpdateConnections_calls[of "(w, cs)" C k] show ?thesis
    unfolding fields
    by (auto simp: loop_connections_of_def Let_def split: prod.splits)
qed

lemma Correct_map_calls:
  "no_SetErase_since (snd st) (snd (Correct_map C G fs currentKF loop st))"
proof -
  obtain w3 cs3 where u: "call_UpdateConnections C currentKF st = (w3, cs3)"
    by (cases "call_UpdateConnections C currentKF st")
  let ?cks = "covisible (kfs w3 currentKF) @ [currentKF]"
  obtain Cor Non where p: "propagate_poses G (kfs w3) currentKF (Scw loop) ?cks = (Cor, Non)"
    by (cases "propagate_poses G (kfs w3) currentKF (Scw loop) ?cks")
  let ?st4 = "correct_neighbors C G currentKF Cor Non (w3, cs3)"
  let ?st5 = "fold (fuse_matched_point C currentKF (matchedPoints loop))
                        [0..<length (matchedPoints loop)] ?st4"
  let ?st6 = "fold (fuse_neighbor C (loopMapPoints loop)) Cor ?st5"
  obtain LC w7 cs7 where l: "fold (loop_connections_of C ?cks) ?cks ([], ?st6) = (LC, w7, cs7)"
    by (cases "fold (loop_connections_of C ?cks) ?cks ([], ?st6)")
  have e3: "no_SetErase_since (snd st) cs3"
    using call_UpdateConnections_calls[of st C currentKF] u by simp
  have "no_SetErase_since (snd (w3, cs3))
      (snd (fold (correct_neighbor C G currentKF Non) Cor (w3, cs3)))"
    by (rule no_SetErase_since_fold) (rule correct_neighbor_calls)
  then have e4: "no_SetErase_since cs3 (snd ?st4)"
    by (simp add: correct_neighbors_def)
  have e5: "no_SetErase_since (snd ?st4) (snd ?st5)"
    by (rule no_SetErase_since_fold) (rule fuse_matched_point_calls)
  have e6: "no_SetErase_since (snd ?st5) (snd ?st6)"
    by (rule no_SetErase_since_fold) (rule fuse_neighbor_calls)
  have e7: "no_SetErase_since (snd ?st6) cs7"
    using no_SetErase_since_fold[where g = "\<lambda>st. snd (snd st)"
        and f = "loop_connections_of C ?cks" and st = "([], ?st6)" and xs = ?cks,
        OF loop_connections_of_calls] l
    by simp
  have e9: "no_SetErase_since cs7 (cs7 @ [Optimizer_OptimizeEssentialGraph (matchedKF loop) currentKF,
                             KF_AddLoopEdge (matchedKF loop) currentKF,
                             KF_AddLoopEdge currentKF (matchedKF loop)])"
    by (rule no_SetErase_since_append) simp
  have r: "snd (Correct_map C G fs currentKF loop st) =
      cs7 @ [Optimizer_OptimizeEssentialGraph (matchedKF loop) currentKF,
             KF_AddLoopEdge (matchedKF loop) currentKF,
             KF_AddLoopEdge currentKF (matchedKF loop)]"
    by (simp add: Correct_map_def Let_def u p l del: fold_append)
  from e3 e4 have "no_SetErase_since (snd st) (snd ?st4)" by (rule no_SetErase_since_trans)
  from this e5 have "no_SetErase_since (snd st) (snd ?st5)" by (rule no_SetErase_since_trans)
  from this e6 have "no_SetErase_since (snd st) (snd ?st6)" by (rule no_SetErase_since_trans)
  from this e7 have "no_SetErase_since (snd st) cs7" by (rule no_SetErase_since_trans)
  from this e9 show ?thesis unfolding r by (rule no_SetErase_since_trans)
qed

lemma Correct_calls:
  assumes "Correct C G lmStops fs currentKF loop s = Some s'"
  shows "no_SetErase_since (calls s) (calls s')"
proof -
  let ?s1 = "s\<lparr>calls := calls s @ [LM_RequestStop]\<rparr>"
  define s2 where "s2 = (if Running ?s1 then GlobalBA_Stop ?s1 else ?s1)"
  have c2: "calls s2 = calls s @ [LM_RequestStop]"
    by (simp add: s2_def GlobalBA_Stop_def)
  obtain w9 cs9 where m: "Correct_map C G fs currentKF loop (world s2, calls s2) = (w9, cs9)"
    by (cases "Correct_map C G fs currentKF loop (world s2, calls s2)")
  have e0: "no_SetErase_since (calls s) (calls s2)"
    unfolding c2 by (simp add: no_SetErase_since_append)
  have e1: "no_SetErase_since (calls s2) cs9"
    using Correct_map_calls[of "(world s2, calls s2)" C G fs currentKF loop] m by simp
  have e2: "no_SetErase_since cs9 (cs9 @ [LM_Release])"
    by (simp add: no_SetErase_since_append)
  from assms have "lmStops"
    by (auto simp: Correct_def Let_def split: if_splits)
  with assms m have "calls s' = cs9 @ [LM_Release]"
    unfolding Correct_def Let_def s2_def[symmetric]
    by (auto simp: GlobalBA_Run_def)
  with e0 e1 e2 show ?thesis
    by (metis no_SetErase_since_trans)
qed






lemma map_of_map_assign: "map_of (map_assign k v m) = (map_of m)(k \<mapsto> v)"
  by (induction m) (auto simp: fun_upd_twist)

lemma fold_propagate_pose:
  "fold (propagate_pose G ks currentKF Twc Scw') connectedKFs (Cor, Non) = (Cor', Non') \<Longrightarrow>
   map_of Cor' = (\<lambda>N. if N \<in> set connectedKFs \<and> N \<noteq> currentKF
                       then Some (sim_mul G (Sim3_of_pose G (pose_mul G (pose (ks N)) Twc)) Scw')
                       else map_of Cor N) \<and>
   map_of Non' = (\<lambda>N. if N \<in> set connectedKFs then Some (Sim3_of_pose G (pose (ks N)))
                       else map_of Non N)"
proof (induction connectedKFs arbitrary: Cor Non)
  case Nil
  then show ?case by simp
next
  case (Cons K connectedKFs)
  obtain Cor1 Non1 where st: "propagate_pose G ks currentKF Twc Scw' K (Cor, Non) = (Cor1, Non1)"
    by (cases "propagate_pose G ks currentKF Twc Scw' K (Cor, Non)")
  have c1: "map_of Cor1 = (if K \<noteq> currentKF
       then (map_of Cor)(K \<mapsto> sim_mul G (Sim3_of_pose G (pose_mul G (pose (ks K)) Twc)) Scw')
       else map_of Cor)"
    and n1: "map_of Non1 = (map_of Non)(K \<mapsto> Sim3_of_pose G (pose (ks K)))"
    using st by (auto simp: propagate_pose_def Let_def map_of_map_assign)
  from Cons.prems st
  have "fold (propagate_pose G ks currentKF Twc Scw') connectedKFs (Cor1, Non1) = (Cor', Non')"
    by simp
  from Cons.IH[OF this] show ?case
    unfolding c1 n1 by (auto simp: fun_eq_iff)
qed


lemma call_UpdateConnections_keeps:
  assumes "call_UpdateConnections C k (w, cs) = (w1, cs1)"
  shows "mps w1 = mps w" and "kf_id (kfs w1 k') = kf_id (kfs w k')"
    and "pose (kfs w1 k') = pose (kfs w k')"
    and "mapPointMatches (kfs w1 k') = mapPointMatches (kfs w k')"
  using assms by (auto simp: call_UpdateConnections_def split: prod.splits)








text \<open>
  C3. Run \<^verbatim>\<open>Correct\<close> on the map; \<open>w3\<close> is the map after \<^verbatim>\<open>currentKF->UpdateConnections()\<close>,
  which leaves every pose as it was. The two maps \<^verbatim>\<open>CorrectedSim3\<close> and
  \<^verbatim>\<open>NonCorrectedSim3\<close> that \<^verbatim>\<open>Correct\<close> builds (and hands to
  \<^verbatim>\<open>Optimizer::OptimizeEssentialGraph\<close>, after which it informs the map of the big change)
  are these: \<^verbatim>\<open>CorrectedSim3[N] = Sim3(T_N * T_C^-1) * loop.Scw\<close> for every covisible
  keyframe \<open>N\<close> of the current keyframe \<open>C\<close> other than \<open>C\<close>, \<^verbatim>\<open>CorrectedSim3[C] = loop.Scw\<close>,
  and \<^verbatim>\<open>NonCorrectedSim3[N] = Sim3(T_N)\<close> for every one of them, \<open>C\<close> included; the keys of
  both maps are exactly these keyframes.
\<close>

theorem Correct_propagates_poses:
  assumes up: "call_UpdateConnections C currentKF (w, cs) = (w3, cs3)"
    and run: "Correct_map C G fixScale' currentKF loop (w, cs) = (w', cs')"
  shows "\<exists>CorrectedSim3 NonCorrectedSim3 LoopConnections w7.
           w' = InformNewBigChange
                  (OptimizeEssentialGraph C (matchedKF loop) currentKF NonCorrectedSim3
                     CorrectedSim3 LoopConnections fixScale' w7) \<and>
           (\<forall>N\<in>set (covisible (kfs w3 currentKF)). N \<noteq> currentKF \<longrightarrow>
              map_of CorrectedSim3 N =
                Some (sim_mul G (Sim3_of_pose G (pose_mul G (pose (kfs w3 N))
                                   (pose_Inverse G (pose (kfs w3 currentKF)))))
                        (Scw loop))) \<and>
           map_of CorrectedSim3 currentKF = Some (Scw loop) \<and>
           (\<forall>N\<in>set (covisible (kfs w3 currentKF) @ [currentKF]).
              map_of NonCorrectedSim3 N = Some (Sim3_of_pose G (pose (kfs w3 N)))) \<and>
           fst ` set CorrectedSim3 = set (covisible (kfs w3 currentKF) @ [currentKF]) \<and>
           fst ` set NonCorrectedSim3 = set (covisible (kfs w3 currentKF) @ [currentKF]) \<and>
           (\<forall>N. pose (kfs w3 N) = pose (kfs w N))"
proof -
  let ?cks = "covisible (kfs w3 currentKF) @ [currentKF]"
  obtain Cor Non where p: "propagate_poses G (kfs w3) currentKF (Scw loop) ?cks = (Cor, Non)"
    by (cases "propagate_poses G (kfs w3) currentKF (Scw loop) ?cks")
  let ?st4 = "correct_neighbors C G currentKF Cor Non (w3, cs3)"
  let ?st5 = "fold (fuse_matched_point C currentKF (matchedPoints loop))
                        [0..<length (matchedPoints loop)] ?st4"
  let ?st6 = "fold (fuse_neighbor C (loopMapPoints loop)) Cor ?st5"
  obtain LC w7 cs7 where l: "fold (loop_connections_of C ?cks) ?cks ([], ?st6) = (LC, w7, cs7)"
    by (cases "fold (loop_connections_of C ?cks) ?cks ([], ?st6)")
  have "fst (Correct_map C G fixScale' currentKF loop (w, cs)) =
      InformNewBigChange (OptimizeEssentialGraph C (matchedKF loop) currentKF Non Cor LC fixScale' w7)"
    by (simp add: Correct_map_def Let_def up p l del: fold_append)
  with run have w': "w' = InformNewBigChange
      (OptimizeEssentialGraph C (matchedKF loop) currentKF Non Cor LC fixScale' w7)"
    by simp
  from p have f: "fold (propagate_pose G (kfs w3) currentKF (pose_Inverse G (pose (kfs w3 currentKF)))
      (Scw loop)) ?cks (map_assign currentKF (Scw loop) [], []) = (Cor, Non)"
    by (simp add: propagate_poses_def Let_def)
  note r = fold_propagate_pose[OF f]
  have d1: "dom (map_of Cor) = set ?cks"
    unfolding r[THEN conjunct1] by (auto split: if_splits)
  have d2: "dom (map_of Non) = set ?cks"
    unfolding r[THEN conjunct2] by (auto split: if_splits)
  have m: "(\<forall>N\<in>set (covisible (kfs w3 currentKF)). N \<noteq> currentKF \<longrightarrow>
              map_of Cor N =
                Some (sim_mul G (Sim3_of_pose G (pose_mul G (pose (kfs w3 N))
                                   (pose_Inverse G (pose (kfs w3 currentKF)))))
                        (Scw loop))) \<and>
           map_of Cor currentKF = Some (Scw loop) \<and>
           (\<forall>N\<in>set ?cks. map_of Non N = Some (Sim3_of_pose G (pose (kfs w3 N)))) \<and>
           fst ` set Cor = set ?cks \<and> fst ` set Non = set ?cks"
    using d1 d2 unfolding dom_map_of_conv_image_fst
    by (simp add: r)
  have k: "\<forall>N. pose (kfs w3 N) = pose (kfs w N)"
    using call_UpdateConnections_keeps(3)[OF up] by simp
  show ?thesis
    apply (rule exI[of _ Cor], rule exI[of _ Non], rule exI[of _ LC], rule exI[of _ w7])
    using w' m k by simp
qed

theorem Correct_propagates_poses_witness:
  "\<exists>CorrectedSim3 NonCorrectedSim3 LoopConnections w7.
     fst revisit_corrected = InformNewBigChange
        (OptimizeEssentialGraph corrector_collaborators_idle 3 30 NonCorrectedSim3 CorrectedSim3
           LoopConnections True w7) \<and>
     map_of CorrectedSim3 29 = Some (1, - 1, 1 :: rat) \<and>
     map_of CorrectedSim3 30 = Some (1, - 2, 1) \<and>
     map_of NonCorrectedSim3 29 = Some (1, - 26, 1) \<and>
     map_of NonCorrectedSim3 30 = Some (1, - 27, 1) \<and>
     fst ` set CorrectedSim3 = {29, 30}"
proof -
  have up: "call_UpdateConnections corrector_collaborators_idle 30 (world sys_revisit, [])
      = (fst revisit_refreshed, snd revisit_refreshed)"
    by (simp add: revisit_refreshed_def)
  have run: "Correct_map corrector_collaborators_idle G_line True 30 loop_revisit
      (world sys_revisit, []) = (fst revisit_corrected, snd revisit_corrected)"
    by (simp add: revisit_corrected_def)
  have c: "covisible (kfs (fst revisit_refreshed) 30) = [29]"
    by (simp add: revisit_refreshed_def call_UpdateConnections_def
        corrector_collaborators_idle_def links_revisit_def)
  have k: "pose (kfs (world sys_revisit) 29) = (1, - 26)"
    "pose (kfs (world sys_revisit) 30) = (1, - 27)"
    by (simp_all add: sys_revisit_def)
  have l: "matchedKF loop_revisit = 3" "Scw loop_revisit = (1, - 2, 1)"
    by (simp_all add: loop_revisit_def)
  from Correct_propagates_poses[OF up run] obtain Cor Non LC w7 where
    t: "fst revisit_corrected = InformNewBigChange
          (OptimizeEssentialGraph corrector_collaborators_idle (matchedKF loop_revisit) 30 Non Cor
             LC True w7)"
      "\<forall>N\<in>set (covisible (kfs (fst revisit_refreshed) 30)). N \<noteq> 30 \<longrightarrow>
         map_of Cor N =
           Some (sim_mul G_line (Sim3_of_pose G_line (pose_mul G_line (pose (kfs (fst revisit_refreshed) N))
                                   (pose_Inverse G_line (pose (kfs (fst revisit_refreshed) 30)))))
                   (Scw loop_revisit))"
      "map_of Cor 30 = Some (Scw loop_revisit)"
      "\<forall>N\<in>set (covisible (kfs (fst revisit_refreshed) 30) @ [30]).
         map_of Non N = Some (Sim3_of_pose G_line (pose (kfs (fst revisit_refreshed) N)))"
      "fst ` set Cor = set (covisible (kfs (fst revisit_refreshed) 30) @ [30])"
      "\<forall>N. pose (kfs (fst revisit_refreshed) N) = pose (kfs (world sys_revisit) N)"
    by (elim exE conjE) (rule that, assumption+)
  from t(2) have 1: "map_of Cor 29 = Some (1, - 1, 1)"
    unfolding c t(6)[rule_format] l by (simp add: G_line_sel k)
  from t(4) have 2: "map_of Non 29 = Some (1, - 26, 1)" "map_of Non 30 = Some (1, - 27, 1)"
    unfolding c t(6)[rule_format] by (simp_all add: G_line_sel k)
  from t(5) have 3: "fst ` set Cor = {29, 30}"
    unfolding c by auto
  show ?thesis
    apply (rule exI[of _ Cor], rule exI[of _ Non], rule exI[of _ LC], rule exI[of _ w7])
    using t(1) t(3) 1 2 3 unfolding l by simp
qed




subsection \<open>Main loop\<close>

text \<open>
  C10 (as the code has it). Take the turn of the main loop that pops \<open>currentKF\<close>, in which
  \<^verbatim>\<open>Detect\<close> returns true with \<open>loop\<close> and \<^verbatim>\<open>Correct\<close> returns. The database does not
  propose the current keyframe as a candidate (it is added to the database only after
  \<^verbatim>\<open>Detect\<close>). Then among the calls recorded during the turn, by the main loop, the
  detector and the corrector, there is \<^verbatim>\<open>SetNotErase\<close> on the current keyframe and on the
  matched keyframe, and no \<^verbatim>\<open>SetErase\<close> on either: at the end of the turn both still
  have their hold.
\<close>

theorem accepted_loop_keeps_holds:
  assumes q: "keyFrameQueue lc = currentKF # rest"
    and db: "currentKF \<notin> set (DetectLoopCandidates E currentKF
                                  (minScore_of E (kfs (world s)) currentKF))"
    and det: "Detect E G fuel currentKF
                \<lparr>matchedKF = garbage, Scw = Sim3_default G, matchedPoints = [], loopMapPoints = []\<rparr>
                (to_int (lastLoopKFId lc)) d (s\<lparr>calls := calls s @ [KF_SetNotErase currentKF]\<rparr>)
              = Some (True, loop, d2, s2)"
    and run: "process_keyframe E C G lmStops fuel garbage (lc, d, s) = Some (lc', d', s')"
  shows "\<exists>evs. calls s' = calls s @ evs \<and>
           KF_SetErase currentKF \<notin> set evs \<and> KF_SetErase (matchedKF loop) \<notin> set evs \<and>
           KF_SetNotErase currentKF \<in> set evs \<and> KF_SetNotErase (matchedKF loop) \<in> set evs"
proof -
  let ?s1 = "s\<lparr>calls := calls s @ [KF_SetNotErase currentKF]\<rparr>"
  from Detect_accept_calls[OF det] obtain cands where
    sub: "set cands \<subseteq> set (DetectLoopCandidates E currentKF
                              (minScore_of E (kfs (world s)) currentKF))"
    and m: "matchedKF loop \<in> set cands"
    and c2: "calls s2 = calls s @ [KF_SetNotErase currentKF] @ [DB_DetectLoopCandidates currentKF] @
               map KF_SetNotErase cands @
               map KF_SetErase (filter (\<lambda>candidateKF. candidateKF \<noteq> matchedKF loop) cands)"
    by auto
  from sub db have nc: "currentKF \<notin> set cands" by auto
  let ?s3 = "s2\<lparr>calls := calls s2 @ [DB_add currentKF]\<rparr>"
  from run q det obtain s4 where
    cor: "Correct C G lmStops (fixScale d2) currentKF loop ?s3 = Some s4" and s': "s' = s4"
    by (auto simp: process_keyframe_def Let_def split: option.splits)
  from Correct_calls[OF cor] obtain evs where
    c4: "calls s4 = calls s2 @ [DB_add currentKF] @ evs" and ne: "\<forall>k. KF_SetErase k \<notin> set evs"
    by (auto simp: no_SetErase_since_def)
  let ?evs = "[KF_SetNotErase currentKF] @ [DB_DetectLoopCandidates currentKF] @
               map KF_SetNotErase cands @
               map KF_SetErase (filter (\<lambda>candidateKF. candidateKF \<noteq> matchedKF loop) cands) @
               [DB_add currentKF] @ evs"
  have "calls s' = calls s @ ?evs"
    unfolding s' c4 c2 by simp
  moreover have "KF_SetErase currentKF \<notin> set ?evs"
    using nc ne by auto
  moreover have "KF_SetErase (matchedKF loop) \<notin> set ?evs"
    using ne by auto
  moreover have "KF_SetNotErase currentKF \<in> set ?evs"
    by simp
  moreover have "KF_SetNotErase (matchedKF loop) \<in> set ?evs"
    using m by simp
  ultimately show ?thesis by blast
qed

theorem accepted_loop_keeps_holds_witness:
  "\<exists>lc' d' s' evs.
      process_keyframe collaborators_revisit corrector_collaborators_idle G_line True 2 0
        (closer_revisit, detector_revisit, sys_revisit) = Some (lc', d', s') \<and>
      calls s' = calls sys_revisit @ evs \<and>
      KF_SetErase 30 \<notin> set evs \<and> KF_SetErase 3 \<notin> set evs \<and>
      KF_SetNotErase 30 \<in> set evs \<and> KF_SetNotErase 3 \<in> set evs"
proof -
  let ?D = "Detect collaborators_revisit G_line 2 30
              \<lparr>matchedKF = 0, Scw = Sim3_default G_line, matchedPoints = [], loopMapPoints = []\<rparr>
              (to_int (lastLoopKFId closer_revisit)) detector_revisit
              (sys_revisit\<lparr>calls := calls sys_revisit @ [KF_SetNotErase 30]\<rparr>)"
  let ?P = "process_keyframe collaborators_revisit corrector_collaborators_idle G_line True 2 0
              (closer_revisit, detector_revisit, sys_revisit)"
  have q: "keyFrameQueue closer_revisit = 30 # []"
    by (simp add: closer_revisit_def)
  have db: "30 \<notin> set (DetectLoopCandidates collaborators_revisit 30
                         (minScore_of collaborators_revisit (kfs (world sys_revisit)) 30))"
    by (simp add: collaborators_revisit_def)
  have "?D \<noteq> None" and f: "fst (the ?D)" and m: "matchedKF (fst (snd (the ?D))) = 3"
    by code_simp+
  then obtain loop d2 s2 where det: "?D = Some (True, loop, d2, s2)" and m3: "matchedKF loop = 3"
    by (cases ?D) auto
  have "?P \<noteq> None"
    by code_simp
  then obtain lc' d' s' where run: "?P = Some (lc', d', s')"
    by (cases ?P) auto
  from accepted_loop_keeps_holds[OF q db det run] run show ?thesis
    unfolding m3 by blast
qed

lemma first_turn_accepts:
  "lastLoopKFId (fst after_first_turn) = 30"
  "KF_AddLoopEdge 3 30 \<in> set (calls (snd (snd after_first_turn)))"
  by code_simp+

lemma first_turn_no_SetErase:
  "KF_SetErase 3 \<notin> set (calls (snd (snd after_first_turn)))"
  by code_simp

lemma second_turn_SetErase:
  "KF_SetErase 3 \<in> set (calls (snd (snd after_second_turn)))"
  by code_simp

text \<open>
  C10 as stated fails on ``ever'' and ``indefinitely'': the first turn accepts the loop
  between keyframes 30 and 3 (the loop edge is added, 30 becomes \<^verbatim>\<open>lastLoopKFId_\<close>) without
  any \<^verbatim>\<open>SetErase\<close> on keyframe 3, and the turn for keyframe 40, where 3 is an admitted
  candidate again and the detection is rejected, calls \<^verbatim>\<open>SetErase\<close> on keyframe 3.
\<close>

theorem later_turn_calls_SetErase_on_matched:
  "lastLoopKFId (fst after_first_turn) = 30 \<and>
   KF_AddLoopEdge 3 30 \<in> set (calls (snd (snd after_first_turn))) \<and>
   KF_SetErase 3 \<notin> set (calls (snd (snd after_first_turn))) \<and>
   KF_SetErase 3 \<in> set (calls (snd (snd after_second_turn)))"
  using first_turn_accepts first_turn_no_SetErase second_turn_SetErase
  by blast

subsection \<open>Reset\<close>

lemma ResetIfRequested_steps:
  assumes "main t = Elsewhere"
  shows "thread_run (if resetRequested (closer t)
                     then [Main_ResetIfRequested, Main_ResetIfRequested, Main_ResetIfRequested,
                           Main_ResetIfRequested]
                     else [Main_ResetIfRequested]) t =
           Some (t\<lparr>closer := ResetIfRequested (closer t)\<rparr>)"
  using assms by (simp add: ResetIfRequested_def)












end
